theory Spec2Isabelle
  imports Main "HOL-Library.Sublist"
begin

chapter \<open>ThinkPrint: the front ends of an event-photo gallery\<close>

text \<open>
  ThinkPrint lets administrators create events, lets attendees register with a phone
  number and a selfie, and gives each attendee a personal gallery behind a token. This
  theory embeds the React front ends: the microsite (routing, gallery, registration in its
  two versions), the public slideshow and the administrators' dashboard. Each component
  is a record of its state; each handler is a function from the state, and from the way
  its network requests end, to the new state; what the code throws is a value of a sum
  type. The first part holds the definitions, translated function by function; the second
  part states and proves the properties.
\<close>


section \<open>JavaScript values\<close>

text \<open>
  The front ends are JavaScript. The values they read from JSON response bodies are
  dynamically typed, and the code branches on their truthiness (\<^verbatim>\<open>a || b\<close>,
  \<^verbatim>\<open>if (x)\<close>), so the model keeps them as one datatype. Strings are lists of 8-bit
  characters (Latin-1 code units); numbers are the integer-valued ones and NaN.
\<close>

datatype jsnum = NaN | Num int

datatype jsval =
    JUndefined
  | JNull
  | JBool bool
  | JNum jsnum
  | JStr string
  | JArr "jsval list"
  | JObj "(string \<times> jsval) list"

text \<open>ToBoolean: undefined, null, false, 0, NaN and the empty string are falsy.\<close>

fun truthy :: "jsval \<Rightarrow> bool" where
  "truthy JUndefined = False"
| "truthy JNull = False"
| "truthy (JBool b) = b"
| "truthy (JNum n) = (n \<noteq> NaN \<and> n \<noteq> Num 0)"
| "truthy (JStr s) = (s \<noteq> [])"
| "truthy (JArr xs) = True"
| "truthy (JObj kvs) = True"

text \<open>\<^verbatim>\<open>a || b\<close>: the left operand when it is truthy, the right one otherwise.\<close>

definition js_or :: "jsval \<Rightarrow> jsval \<Rightarrow> jsval" where
  "js_or a b = (if truthy a then a else b)"

datatype js_error = TypeError

text \<open>
  \<^verbatim>\<open>v.k\<close> for a key \<open>k\<close> that no prototype defines (\<open>media\<close>, \<open>error\<close>,
  \<open>message\<close>, \<open>token\<close>, \<open>filename\<close>, \<open>url\<close>): a TypeError on undefined and null, the
  own property of an object, undefined on everything else.
\<close>

fun get_prop :: "jsval \<Rightarrow> string \<Rightarrow> js_error + jsval" where
  "get_prop JUndefined k = Inl TypeError"
| "get_prop JNull k = Inl TypeError"
| "get_prop (JObj kvs) k = Inr (case map_of kvs k of None \<Rightarrow> JUndefined | Some v \<Rightarrow> v)"
| "get_prop v k = Inr JUndefined"

section \<open>HTTP\<close>

text \<open>A \<^verbatim>\<open>File\<close>: its name, its media type and its bytes.\<close>

record js_file =
  file_name :: string
  file_type :: string
  file_bytes :: string

datatype form_value = FText string | FFile js_file

text \<open>
  A request body: none, \<^verbatim>\<open>JSON.stringify(v)\<close> (kept as the value \<open>v\<close>), or a
  \<^verbatim>\<open>FormData\<close> with its entries in the order they were appended.
\<close>

datatype req_body =
    NoBody
  | JsonBody jsval
  | FormBody "(string \<times> form_value) list"

record request =
  http_method :: string
  http_url :: string
  http_headers :: "(string \<times> string) list"
  http_body :: req_body

text \<open>
  A response as the code reads it: \<^verbatim>\<open>res.ok\<close>, and \<^verbatim>\<open>await res.json()\<close>, which
  rejects (\<open>None\<close>) when the body is not JSON. The promise of \<^verbatim>\<open>fetch\<close> itself
  either rejects or resolves to a response.
\<close>

record response =
  ok :: bool
  json :: "jsval option"

datatype 'a outcome = Rejected | Resolved 'a

section \<open>Strings\<close>

text \<open>\<^verbatim>\<open>s.split(c)\<close>: the pieces of \<open>s\<close> between the occurrences of \<open>c\<close>, empty ones included.\<close>

fun split :: "char \<Rightarrow> string \<Rightarrow> string list" where
  "split c [] = [[]]"
| "split c (x # xs) =
     (if x = c then [] # split c xs
      else (case split c xs of [] \<Rightarrow> [[x]] | p # ps \<Rightarrow> (x # p) # ps))"

text \<open>\<^verbatim>\<open>xs[i]\<close> on an array: undefined (\<open>None\<close>) out of range.\<close>

definition nth_opt :: "'a list \<Rightarrow> nat \<Rightarrow> 'a option" where
  "nth_opt xs i = (if i < length xs then Some (xs ! i) else None)"

text \<open>Truthiness of a value that is a string or null: a non-empty string.\<close>

definition truthy_opt :: "string option \<Rightarrow> bool" where
  "truthy_opt v = (case v of None \<Rightarrow> False | Some s \<Rightarrow> s \<noteq> [])"

fun join :: "string \<Rightarrow> string list \<Rightarrow> string" where
  "join sep [] = []"
| "join sep [x] = x"
| "join sep (x # y # ys) = x @ sep @ join sep (y # ys)"

fun dec :: "nat \<Rightarrow> string" where
  "dec n = (if n < 10 then [char_of (48 + n)] else dec (n div 10) @ [char_of (48 + n mod 10)])"

declare dec.simps [simp del]

definition num_to_string :: "jsnum \<Rightarrow> string" where
  "num_to_string n =
     (case n of NaN \<Rightarrow> ''NaN''
      | Num i \<Rightarrow> if i < 0 then CHR ''-'' # dec (nat (- i)) else dec (nat i))"

text \<open>
  ToString, as a template literal and \<^verbatim>\<open>RegExp.prototype.test\<close> apply it. An array
  joins its elements with commas, undefined and null elements as empty strings.
\<close>

fun to_string :: "jsval \<Rightarrow> string" where
  "to_string JUndefined = ''undefined''"
| "to_string JNull = ''null''"
| "to_string (JBool b) = (if b then ''true'' else ''false'')"
| "to_string (JNum n) = num_to_string n"
| "to_string (JStr s) = s"
| "to_string (JArr xs) =
     join '','' (map (\<lambda>x. if x = JUndefined \<or> x = JNull then [] else to_string x) xs)"
| "to_string (JObj kvs) = ''[object Object]''"

section \<open>Regular expressions\<close>

text \<open>
  The fragment of the regular expression syntax the front ends use: literal characters,
  sequence, alternation and the end-of-input assertion \<^verbatim>\<open>$\<close>. Both patterns carry
  the flag \<^verbatim>\<open>i\<close>, under which two characters match when their canonical (upper case)
  forms are equal. A character outside ASCII never canonicalises to an ASCII one, so
  against patterns of ASCII characters only the ASCII letters need folding.
\<close>

datatype rx = Eps | Lit char | Cat rx rx | Alt rx rx | Eoi

definition canon :: "char \<Rightarrow> char" where
  "canon c = (let n = (of_char c :: nat) in if 97 \<le> n \<and> n \<le> 122 then char_of (n - 32) else c)"

text \<open>
  The backtracking matcher: every way \<open>r\<close> matches a prefix of \<open>s\<close>, given by what
  is left of \<open>s\<close> after the match.
\<close>

fun rx_match :: "rx \<Rightarrow> string \<Rightarrow> string list" where
  "rx_match Eps s = [s]"
| "rx_match (Lit c) s =
     (case s of [] \<Rightarrow> [] | x # xs \<Rightarrow> if canon x = canon c then [xs] else [])"
| "rx_match (Cat r1 r2) s = concat (map (rx_match r2) (rx_match r1 s))"
| "rx_match (Alt r1 r2) s = rx_match r1 s @ rx_match r2 s"
| "rx_match Eoi s = (if s = [] then [s] else [])"

text \<open>\<^verbatim>\<open>r.test(s)\<close>: a match starting at some index \<open>0, \<dots>, s.length\<close>.\<close>

definition rx_test :: "rx \<Rightarrow> string \<Rightarrow> bool" where
  "rx_test r s = list_ex (\<lambda>i. rx_match r (drop i s) \<noteq> []) [0..<Suc (length s)]"

fun word :: "string \<Rightarrow> rx" where
  "word [] = Eps"
| "word (c # cs) = Cat (Lit c) (word cs)"


text \<open>\<^verbatim>\<open>/\.mp4$|\.mov$|\.webm$/i\<close>, the pattern of the gallery and of the slideshow.\<close>

definition gallery_video_rx :: rx where
  "gallery_video_rx =
     Alt (Cat (word ''.mp4'') Eoi) (Alt (Cat (word ''.mov'') Eoi) (Cat (word ''.webm'') Eoi))"

section \<open>The microsite\<close>

subsection \<open>Routing\<close>

text \<open>
  \<^verbatim>\<open>window.location\<close>: the path, and the list of name-value pairs that
  \<^verbatim>\<open>new URLSearchParams(window.location.search)\<close> holds.
\<close>

record location =
  pathname :: string
  search_params :: "(string \<times> string) list"

text \<open>\<^verbatim>\<open>params.get(name)\<close>: the value of the first pair with that name, or null.\<close>

definition params_get :: "(string \<times> string) list \<Rightarrow> string \<Rightarrow> string option" where
  "params_get ps name = map_of ps name"

definition getGalleryToken :: "location \<Rightarrow> string option" where
  "getGalleryToken loc =
     (let parts = filter (\<lambda>p. p \<noteq> []) (split CHR ''/'' (pathname loc))
      in if nth_opt parts 0 = Some ''gallery'' \<and> truthy_opt (nth_opt parts 1)
         then nth_opt parts 1 else None)"

definition getRegisterEvent :: "location \<Rightarrow> string option" where
  "getRegisterEvent loc = params_get (search_params loc) ''event''"

datatype page = GalleryPage string | RegisterPage string | LandingPage

definition App :: "location \<Rightarrow> page" where
  "App loc =
     (let galleryToken = getGalleryToken loc;
          registerEvent = getRegisterEvent loc
      in if truthy_opt galleryToken then GalleryPage (the galleryToken)
         else if truthy_opt registerEvent then RegisterPage (the registerEvent)
         else LandingPage)"

subsection \<open>The gallery\<close>

record gallery =
  g_media :: jsval
  g_loading :: bool
  g_error :: jsval

definition Gallery_init :: gallery where
  "Gallery_init = \<lparr>g_media = JArr [], g_loading = True, g_error = JStr []\<rparr>"

definition conn_error :: string where
  "conn_error = ''Erro de conex'' @ [CHR 0xE3, CHR ''o'']"

definition gallery_request :: "string \<Rightarrow> string \<Rightarrow> request" where
  "gallery_request api token =
     \<lparr>http_method = ''GET'', http_url = api @ ''/gallery/'' @ token, http_headers = [],
      http_body = NoBody\<rparr>"

text \<open>
  \<^verbatim>\<open>fetchMedia\<close>, given how the fetch of \<open>gallery_request\<close> ends. Anything thrown
  inside the \<^verbatim>\<open>try\<close> (the fetch, \<^verbatim>\<open>res.json()\<close>, a property of null) lands in the
  \<^verbatim>\<open>catch\<close>; \<^verbatim>\<open>finally\<close> clears \<open>loading\<close>.
\<close>

definition fetchMedia :: "response outcome \<Rightarrow> gallery \<Rightarrow> gallery" where
  "fetchMedia out st =
     (let caught = st\<lparr>g_error := JStr conn_error\<rparr>;
          st' =
            (case out of
               Rejected \<Rightarrow> caught
             | Resolved res \<Rightarrow>
                 (case json res of
                    None \<Rightarrow> caught
                  | Some data \<Rightarrow>
                      if ok res then
                        (case get_prop data ''media'' of
                           Inl e \<Rightarrow> caught
                         | Inr m \<Rightarrow> st\<lparr>g_media := js_or m (JArr [])\<rparr>)
                      else
                        (case get_prop data ''error'' of
                           Inl e \<Rightarrow> caught
                         | Inr e \<Rightarrow> st\<lparr>g_error := js_or e (JStr ''Erro ao carregar galeria'')\<rparr>)))
      in st'\<lparr>g_loading := False\<rparr>)"

datatype element = VideoEl string | ImgEl string

text \<open>One cell of the grid: the callback of \<^verbatim>\<open>media.map\<close>.\<close>

definition media_cell :: "string \<Rightarrow> jsval \<Rightarrow> js_error + element" where
  "media_cell api item =
     (case get_prop item ''url'' of
        Inl e \<Rightarrow> Inl e
      | Inr u \<Rightarrow>
          (case get_prop item ''filename'' of
             Inl e \<Rightarrow> Inl e
           | Inr f \<Rightarrow>
               let fileUrl = api @ to_string u;
                   isVideo = rx_test gallery_video_rx (to_string f)
               in Inr (if isVideo then VideoEl fileUrl else ImgEl fileUrl)))"

fun media_cells :: "string \<Rightarrow> jsval list \<Rightarrow> js_error + element list" where
  "media_cells api [] = Inr []"
| "media_cells api (item # items) =
     (case media_cell api item of
        Inl e \<Rightarrow> Inl e
      | Inr c \<Rightarrow> (case media_cells api items of Inl e \<Rightarrow> Inl e | Inr cs \<Rightarrow> Inr (c # cs)))"

datatype gallery_view = LoadingView | ErrorView jsval | MediaGrid "element list"

text \<open>What the component returns; \<^verbatim>\<open>media.map\<close> throws when \<open>media\<close> is no array.\<close>

definition Gallery_render :: "string \<Rightarrow> gallery \<Rightarrow> js_error + gallery_view" where
  "Gallery_render api st =
     (if g_loading st then Inr LoadingView
      else if truthy (g_error st) then Inr (ErrorView (g_error st))
      else (case g_media st of
              JArr items \<Rightarrow>
                (case media_cells api items of Inl e \<Rightarrow> Inl e | Inr cs \<Rightarrow> Inr (MediaGrid cs))
            | _ \<Rightarrow> Inl TypeError))"

subsection \<open>Registration: the single form\<close>

text \<open>
  One version of the microsite asks for the phone number and a selfie file in one form.
  The model logs every request the component sends in \<open>rf_sent\<close>.
\<close>

record register_form =
  rf_phone :: string
  rf_selfie :: "js_file option"
  rf_message :: jsval
  rf_submitting :: bool
  rf_sent :: "request list"

definition register_form_init :: register_form where
  "register_form_init =
     \<lparr>rf_phone = [], rf_selfie = None, rf_message = JStr [], rf_submitting = False,
      rf_sent = []\<rparr>"

definition register_request :: "string \<Rightarrow> string \<Rightarrow> string \<Rightarrow> js_file \<Rightarrow> request" where
  "register_request api eventId phone selfie =
     \<lparr>http_method = ''POST'', http_url = api @ ''/register'', http_headers = [],
      http_body = FormBody [(''event_id'', FText eventId), (''phone'', FText phone),
                       (''selfie'', FFile selfie)]\<rparr>"

text \<open>
  What the registration handlers make of the answer to \<open>register_request\<close>: the message
  to show. Both microsites share these lines.
\<close>

definition register_reply :: "response outcome \<Rightarrow> jsval" where
  "register_reply out =
     (case out of
        Rejected \<Rightarrow> JStr conn_error
      | Resolved res \<Rightarrow>
          (case json res of
             None \<Rightarrow> JStr conn_error
           | Some data \<Rightarrow>
               if ok res then
                 (case get_prop data ''message'' of Inl e \<Rightarrow> JStr conn_error | Inr m \<Rightarrow> m)
               else
                 (case get_prop data ''error'' of
                    Inl e \<Rightarrow> JStr conn_error
                  | Inr e \<Rightarrow> js_or e (JStr ''Erro ao realizar cadastro''))))"

definition handleSubmit ::
  "string \<Rightarrow> string \<Rightarrow> response outcome \<Rightarrow> register_form \<Rightarrow> register_form" where
  "handleSubmit api eventId out st =
     (case rf_selfie st of
        None \<Rightarrow> st\<lparr>rf_message := JStr ''Por favor, selecione uma selfie.''\<rparr>
      | Some selfie \<Rightarrow>
          st\<lparr>rf_sent := rf_sent st @ [register_request api eventId (rf_phone st) selfie],
             rf_message := register_reply out,
             rf_submitting := False\<rparr>)"

text \<open>
  The user's actions on the form. Both inputs carry \<^verbatim>\<open>required\<close>, so the browser
  dispatches the submit event, and with it \<open>handleSubmit\<close>, only when the phone field is
  non-empty and a file is chosen; the button is disabled while a submission runs.
\<close>

datatype form_event =
    TypePhone string
  | ChooseSelfie "js_file option"
  | Submit "response outcome"

fun form_step :: "string \<Rightarrow> string \<Rightarrow> form_event \<Rightarrow> register_form \<Rightarrow> register_form" where
  "form_step api eventId (TypePhone s) st = st\<lparr>rf_phone := s\<rparr>"
| "form_step api eventId (ChooseSelfie f) st = st\<lparr>rf_selfie := f\<rparr>"
| "form_step api eventId (Submit out) st =
     (if rf_phone st = [] \<or> rf_selfie st = None \<or> rf_submitting st then st
      else handleSubmit api eventId out st)"

text \<open>A visit: the actions in order, from the freshly mounted form.\<close>

definition form_run :: "string \<Rightarrow> string \<Rightarrow> form_event list \<Rightarrow> register_form" where
  "form_run api eventId evs = foldl (\<lambda>st ev. form_step api eventId ev st) register_form_init evs"

subsection \<open>Registration: phone, then camera\<close>

text \<open>
  The other version of the microsite asks for the phone number first and then takes the
  selfie with the camera. On mounting it loads the event's details.
\<close>

record register =
  r_step :: string
  r_phone :: string
  r_message :: jsval
  r_submitting :: bool
  r_useFrontCamera :: bool
  r_eventInfo :: jsval
  r_loadingEvent :: bool
  r_eventError :: jsval
  r_sent :: "request list"

definition register_init :: register where
  "register_init =
     \<lparr>r_step = ''phone'', r_phone = [], r_message = JStr [], r_submitting = False,
      r_useFrontCamera = True, r_eventInfo = JNull, r_loadingEvent = True,
      r_eventError = JStr [], r_sent = []\<rparr>"

definition event_info_request :: "string \<Rightarrow> string \<Rightarrow> request" where
  "event_info_request api eventId =
     \<lparr>http_method = ''GET'', http_url = api @ ''/public/events/'' @ eventId,
      http_headers = [], http_body = NoBody\<rparr>"

definition event_load_error :: string where
  "event_load_error = ''Erro de conex'' @ [CHR 0xE3] @ ''o ao carregar evento''"

definition event_not_found :: string where
  "event_not_found = ''Evento n'' @ [CHR 0xE3] @ ''o encontrado''"

text \<open>The effect that runs when the component mounts.\<close>

definition fetchEvent :: "string \<Rightarrow> string \<Rightarrow> response outcome \<Rightarrow> register \<Rightarrow> register" where
  "fetchEvent api eventId out st =
     (let st1 = st\<lparr>r_sent := r_sent st @ [event_info_request api eventId]\<rparr>;
          caught = st1\<lparr>r_eventError := JStr event_load_error\<rparr>;
          st2 =
            (case out of
               Rejected \<Rightarrow> caught
             | Resolved res \<Rightarrow>
                 (case json res of
                    None \<Rightarrow> caught
                  | Some data \<Rightarrow>
                      if ok res then st1\<lparr>r_eventInfo := data\<rparr>
                      else
                        (case get_prop data ''error'' of
                           Inl e \<Rightarrow> caught
                         | Inr e \<Rightarrow> st1\<lparr>r_eventError := js_or e (JStr event_not_found)\<rparr>)))
      in st2\<lparr>r_loadingEvent := False\<rparr>)"

definition camera_error :: string where
  "camera_error =
     ''N'' @ [CHR 0xE3] @ ''o foi poss'' @ [CHR 0xED] @ ''vel acessar a c'' @ [CHR 0xE2]
       @ ''mera. Verifique as permiss'' @ [CHR 0xF5] @ ''es.''"

text \<open>\<^verbatim>\<open>startCamera\<close>: \<open>granted\<close> says whether \<^verbatim>\<open>getUserMedia\<close> resolves.\<close>

definition startCamera :: "bool \<Rightarrow> register \<Rightarrow> register" where
  "startCamera granted st = (if granted then st else st\<lparr>r_message := JStr camera_error\<rparr>)"

definition handlePhoneSubmit :: "bool \<Rightarrow> register \<Rightarrow> register" where
  "handlePhoneSubmit granted st =
     (if r_phone st = [] then st else startCamera granted (st\<lparr>r_step := ''camera''\<rparr>))"

definition handleToggleCamera :: "bool \<Rightarrow> register \<Rightarrow> register" where
  "handleToggleCamera granted st =
     startCamera granted (st\<lparr>r_useFrontCamera := \<not> r_useFrontCamera st\<rparr>)"

text \<open>
  \<^verbatim>\<open>handleCapture\<close>: the video element is mounted exactly in the camera step;
  \<open>blob\<close> is what \<^verbatim>\<open>canvas.toBlob\<close> hands to its callback (null when the canvas
  cannot be encoded).
\<close>

definition handleCapture ::
  "string \<Rightarrow> string \<Rightarrow> string option \<Rightarrow> response outcome \<Rightarrow> register \<Rightarrow> register" where
  "handleCapture api eventId blob out st =
     (if r_step st \<noteq> ''camera'' then st
      else (case blob of
              None \<Rightarrow> st\<lparr>r_message := JStr ''Erro ao capturar selfie''\<rparr>
            | Some bytes \<Rightarrow>
                let selfie = \<lparr>file_name = ''selfie.jpg'', file_type = ''image/jpeg'',
                              file_bytes = bytes\<rparr>
                in st\<lparr>r_sent := r_sent st @ [register_request api eventId (r_phone st) selfie],
                      r_message := register_reply out,
                      r_submitting := False,
                      r_step := ''done''\<rparr>))"

text \<open>
  The user's actions, each possible only where its control is rendered: the phone input
  and its form in the phone step, the two buttons in the camera step (the capture button
  is disabled while a submission runs).
\<close>

datatype register_event =
    Mounted "response outcome"
  | EnterPhone string
  | PhoneSubmit bool
  | ToggleCamera bool
  | Capture "string option" "response outcome"

fun register_step :: "string \<Rightarrow> string \<Rightarrow> register_event \<Rightarrow> register \<Rightarrow> register" where
  "register_step api eventId (Mounted out) st = fetchEvent api eventId out st"
| "register_step api eventId (EnterPhone s) st =
     (if r_step st = ''phone'' then st\<lparr>r_phone := s\<rparr> else st)"
| "register_step api eventId (PhoneSubmit granted) st =
     (if r_step st = ''phone'' then handlePhoneSubmit granted st else st)"
| "register_step api eventId (ToggleCamera granted) st =
     (if r_step st = ''camera'' then handleToggleCamera granted st else st)"
| "register_step api eventId (Capture blob out) st =
     (if r_step st = ''camera'' \<and> \<not> r_submitting st then handleCapture api eventId blob out st
      else st)"

text \<open>A visit: the actions in order, from the freshly mounted component.\<close>

definition register_run :: "string \<Rightarrow> string \<Rightarrow> register_event list \<Rightarrow> register" where
  "register_run api eventId evs = foldl (\<lambda>st ev. register_step api eventId ev st) register_init evs"

section \<open>The slideshow\<close>

text \<open>
  The slideshow's state once the media list is fetched. A timer runs only while the list
  has more than one item; each time it fires (every 5000 ms) it advances the index.
\<close>

record slideshow =
  s_media :: "jsval list"
  s_current :: nat
  s_error :: jsval

definition slideshow_loaded :: "jsval list \<Rightarrow> slideshow" where
  "slideshow_loaded items = \<lparr>s_media = items, s_current = 0, s_error = JStr []\<rparr>"

definition tick :: "slideshow \<Rightarrow> slideshow" where
  "tick st =
     (if length (s_media st) > 1
      then st\<lparr>s_current := (s_current st + 1) mod length (s_media st)\<rparr>
      else st)"

datatype slide_view =
    SlideError jsval
  | NoEventGiven
  | NoMediaFound
  | Slide element string

text \<open>
  What the slideshow renders: the item at the current index, as a video or an image, and
  the overlay \<^verbatim>\<open>${current + 1} / ${media.length}\<close>. Reading a property of
  \<^verbatim>\<open>media[current]\<close> throws when the index is out of range.
\<close>

definition slideshow_render ::
  "string \<Rightarrow> string option \<Rightarrow> slideshow \<Rightarrow> js_error + slide_view" where
  "slideshow_render api eventId st =
     (if truthy (s_error st) then Inr (SlideError (s_error st))
      else if \<not> truthy_opt eventId then Inr NoEventGiven
      else if length (s_media st) = 0 then Inr NoMediaFound
      else (case nth_opt (s_media st) (s_current st) of
              None \<Rightarrow> Inl TypeError
            | Some currentItem \<Rightarrow>
                (case media_cell api currentItem of
                   Inl e \<Rightarrow> Inl e
                 | Inr el \<Rightarrow>
                     Inr (Slide el (dec (s_current st + 1) @ '' / '' @ dec (length (s_media st)))))))"

section \<open>The dashboard\<close>

subsection \<open>parseInt\<close>

text \<open>
  \<^verbatim>\<open>parseInt(s)\<close> with no radix: leading white space is skipped, a sign is read, the
  prefix \<^verbatim>\<open>0x\<close> selects radix 16, and the longest run of digits is the number; NaN
  when that run is empty. The result is the exact integer (a double rounds it past
  \<open>2^53\<close>, keeping zero zero and non-zero non-zero).
\<close>

definition is_ws :: "char \<Rightarrow> bool" where
  "is_ws c = ((of_char c :: nat) \<in> {9, 10, 11, 12, 13, 32, 160})"

definition digit_of :: "char \<Rightarrow> nat option" where
  "digit_of c =
     (let n = (of_char c :: nat)
      in if 48 \<le> n \<and> n \<le> 57 then Some (n - 48)
         else if 97 \<le> n \<and> n \<le> 122 then Some (n - 87)
         else if 65 \<le> n \<and> n \<le> 90 then Some (n - 55)
         else None)"

definition is_digit :: "nat \<Rightarrow> char \<Rightarrow> bool" where
  "is_digit R c = (case digit_of c of None \<Rightarrow> False | Some d \<Rightarrow> d < R)"

definition digits_value :: "nat \<Rightarrow> string \<Rightarrow> nat" where
  "digits_value R z = foldl (\<lambda>a c. a * R + the (digit_of c)) 0 z"

definition parseInt :: "string \<Rightarrow> jsnum" where
  "parseInt str =
     (let s1 = dropWhile is_ws str;
          negative = (take 1 s1 = ''-'');
          s2 = (if take 1 s1 = ''+'' \<or> take 1 s1 = ''-'' then drop 1 s1 else s1);
          hex = (take 2 s2 = ''0x'' \<or> take 2 s2 = ''0X'');
          R = (if hex then 16 else 10);
          s3 = (if hex then drop 2 s2 else s2);
          z = takeWhile (is_digit R) s3
      in if z = [] then NaN
         else Num ((if negative then - 1 else 1) * int (digits_value R z)))"

text \<open>\<^verbatim>\<open>a || b\<close> on numbers.\<close>

definition num_or :: "jsnum \<Rightarrow> jsnum \<Rightarrow> jsnum" where
  "num_or a b = (if truthy (JNum a) then a else b)"

subsection \<open>State and handlers\<close>

record new_event =
  ne_name :: string
  ne_phrase :: string
  ne_expiration_days :: jsnum
  ne_logo_url :: string

definition new_event_blank :: new_event where
  "new_event_blank =
     \<lparr>ne_name = [], ne_phrase = [], ne_expiration_days = Num 30, ne_logo_url = []\<rparr>"

text \<open>The object that \<^verbatim>\<open>JSON.stringify(newEvent)\<close> serialises.\<close>

definition new_event_json :: "new_event \<Rightarrow> jsval" where
  "new_event_json ev =
     JObj [(''name'', JStr (ne_name ev)), (''phrase'', JStr (ne_phrase ev)),
           (''expiration_days'', JNum (ne_expiration_days ev)),
           (''logo_url'', JStr (ne_logo_url ev))]"

text \<open>
  The component's state, the browser's \<^verbatim>\<open>localStorage\<close> and the log of the network
  exchanges: every request sent, with how its fetch ended. The event table and the
  analytics cards are display state that decides no request; the model leaves them out.
  The two versions of the dashboard share the handlers below; one adds the analytics view.
\<close>

record dashboard =
  d_token :: jsval
  d_username :: string
  d_password :: string
  d_error :: jsval
  d_newEvent :: new_event
  d_activeView :: string
  d_localStorage :: "string \<Rightarrow> string option"
  d_sent :: "(request \<times> response outcome) list"

text \<open>Mounting the component: the token is read from \<^verbatim>\<open>localStorage\<close>.\<close>

definition dashboard_mount ::
  "(string \<Rightarrow> string option) \<Rightarrow> (request \<times> response outcome) list \<Rightarrow> dashboard" where
  "dashboard_mount storage log =
     \<lparr>d_token = (case storage ''tp_token'' of None \<Rightarrow> JNull | Some t \<Rightarrow> JStr t),
      d_username = [], d_password = [], d_error = JStr [], d_newEvent = new_event_blank,
      d_activeView = ''events'', d_localStorage = storage, d_sent = log\<rparr>"

definition authorization :: "jsval \<Rightarrow> string \<times> string" where
  "authorization token = (''Authorization'', ''Bearer '' @ to_string token)"

definition content_type_json :: "string \<times> string" where
  "content_type_json = (''Content-Type'', ''application/json'')"

definition events_request :: "string \<Rightarrow> jsval \<Rightarrow> request" where
  "events_request api token =
     \<lparr>http_method = ''GET'', http_url = api @ ''/events'', http_headers = [authorization token],
      http_body = NoBody\<rparr>"

definition fetch_events_error :: string where
  "fetch_events_error =
     ''N'' @ [CHR 0xE3] @ ''o foi poss'' @ [CHR 0xED] @ ''vel obter os eventos''"

text \<open>
  \<^verbatim>\<open>fetchEvents\<close>: a response that is not ok throws inside the \<^verbatim>\<open>try\<close>, like a
  rejected fetch or a body that is not JSON.
\<close>

definition fetchEvents :: "string \<Rightarrow> response outcome \<Rightarrow> dashboard \<Rightarrow> dashboard" where
  "fetchEvents api out st =
     (let st1 = st\<lparr>d_sent := d_sent st @ [(events_request api (d_token st), out)]\<rparr>;
          caught = st1\<lparr>d_error := JStr fetch_events_error\<rparr>
      in (case out of
            Rejected \<Rightarrow> caught
          | Resolved res \<Rightarrow>
              if \<not> ok res then caught
              else (case json res of None \<Rightarrow> caught | Some data \<Rightarrow> st1)))"

text \<open>
  \<^verbatim>\<open>useEffect(..., [token])\<close>: after a render in which the token differs from the one
  of the render before (by \<^verbatim>\<open>Object.is\<close>: a parsed object or array is always a new
  one), the events are fetched if the token is truthy.
\<close>

definition token_changed :: "jsval \<Rightarrow> jsval \<Rightarrow> bool" where
  "token_changed old new =
     (case new of JObj kvs \<Rightarrow> True | JArr xs \<Rightarrow> True | _ \<Rightarrow> old \<noteq> new)"

definition token_effect :: "string \<Rightarrow> response outcome \<Rightarrow> jsval \<Rightarrow> dashboard \<Rightarrow> dashboard" where
  "token_effect api out old st =
     (if token_changed old (d_token st) \<and> truthy (d_token st) then fetchEvents api out st
      else st)"

definition login_request :: "string \<Rightarrow> string \<Rightarrow> string \<Rightarrow> request" where
  "login_request api username password =
     \<lparr>http_method = ''POST'', http_url = api @ ''/login'', http_headers = [content_type_json],
      http_body = JsonBody (JObj [(''username'', JStr username), (''password'', JStr password)])\<rparr>"

definition bad_credentials :: string where
  "bad_credentials = ''Credenciais inv'' @ [CHR 0xE1] @ ''lidas''"

definition handleLogin :: "string \<Rightarrow> response outcome \<Rightarrow> dashboard \<Rightarrow> dashboard" where
  "handleLogin api out st =
     (let st1 = st\<lparr>d_error := JStr [],
                   d_sent := d_sent st @ [(login_request api (d_username st) (d_password st), out)]\<rparr>;
          caught = st1\<lparr>d_error := JStr conn_error\<rparr>
      in (case out of
            Rejected \<Rightarrow> caught
          | Resolved res \<Rightarrow>
              (case json res of
                 None \<Rightarrow> caught
               | Some data \<Rightarrow>
                   if ok res then
                     (case get_prop data ''token'' of
                        Inl e \<Rightarrow> caught
                      | Inr t \<Rightarrow>
                          st1\<lparr>d_localStorage := (d_localStorage st1)(''tp_token'' \<mapsto> to_string t),
                              d_token := t,
                              d_password := []\<rparr>)
                   else
                     (case get_prop data ''error'' of
                        Inl e \<Rightarrow> caught
                      | Inr e \<Rightarrow> st1\<lparr>d_error := js_or e (JStr bad_credentials)\<rparr>))))"

definition create_event_request :: "string \<Rightarrow> jsval \<Rightarrow> new_event \<Rightarrow> request" where
  "create_event_request api token ev =
     \<lparr>http_method = ''POST'', http_url = api @ ''/events'',
      http_headers = [content_type_json, authorization token],
      http_body = JsonBody (new_event_json ev)\<rparr>"

definition create_failed :: string where
  "create_failed = ''N'' @ [CHR 0xE3] @ ''o foi poss'' @ [CHR 0xED] @ ''vel criar o evento''"

definition handleCreateEvent :: "string \<Rightarrow> response outcome \<Rightarrow> dashboard \<Rightarrow> dashboard" where
  "handleCreateEvent api out st =
     (let st1 = st\<lparr>d_error := JStr [],
                   d_sent := d_sent st @ [(create_event_request api (d_token st) (d_newEvent st), out)]\<rparr>;
          caught = st1\<lparr>d_error := JStr ''Erro ao criar evento''\<rparr>
      in (case out of
            Rejected \<Rightarrow> caught
          | Resolved res \<Rightarrow>
              (case json res of
                 None \<Rightarrow> caught
               | Some data \<Rightarrow>
                   if ok res then st1\<lparr>d_newEvent := new_event_blank\<rparr>
                   else
                     (case get_prop data ''error'' of
                        Inl e \<Rightarrow> caught
                      | Inr e \<Rightarrow> st1\<lparr>d_error := js_or e (JStr create_failed)\<rparr>))))"

definition logout :: "dashboard \<Rightarrow> dashboard" where
  "logout st =
     st\<lparr>d_localStorage := (d_localStorage st)(''tp_token'' := None),
        d_token := JNull,
        d_activeView := ''events''\<rparr>"

definition event_request :: "string \<Rightarrow> jsval \<Rightarrow> string \<Rightarrow> request" where
  "event_request api token eventId =
     \<lparr>http_method = ''GET'', http_url = api @ ''/events/'' @ eventId,
      http_headers = [authorization token], http_body = NoBody\<rparr>"

definition uploads_request :: "string \<Rightarrow> jsval \<Rightarrow> string \<Rightarrow> request" where
  "uploads_request api token eventId =
     \<lparr>http_method = ''GET'', http_url = api @ ''/events/'' @ eventId @ ''/uploads'',
      http_headers = [authorization token], http_body = NoBody\<rparr>"

text \<open>
  \<^verbatim>\<open>loadAnalytics\<close>: the uploads are requested only once the event's own response has
  been read as JSON; \<^verbatim>\<open>res.ok\<close> is not consulted.
\<close>

definition loadAnalytics ::
  "string \<Rightarrow> string \<Rightarrow> response outcome \<Rightarrow> response outcome \<Rightarrow> dashboard \<Rightarrow> dashboard" where
  "loadAnalytics api eventId outEvt outUploads st =
     (let st1 = st\<lparr>d_activeView := ''analytics'',
                   d_sent := d_sent st @ [(event_request api (d_token st) eventId, outEvt)]\<rparr>
      in (case outEvt of
            Rejected \<Rightarrow> st1
          | Resolved resEvt \<Rightarrow>
              (case json resEvt of
                 None \<Rightarrow> st1
               | Some evtData \<Rightarrow>
                   st1\<lparr>d_sent := d_sent st1 @
                         [(uploads_request api (d_token st) eventId, outUploads)]\<rparr>)))"



subsection \<open>The user's actions\<close>

datatype dashboard_view = LoginView | EventListView | AnalyticsView

definition dashboard_view :: "dashboard \<Rightarrow> dashboard_view" where
  "dashboard_view st =
     (if \<not> truthy (d_token st) then LoginView
      else if d_activeView st = ''events'' then EventListView
      else AnalyticsView)"

text \<open>
  Each action is possible only in the view that renders its control. \<open>Login\<close> carries the
  outcome of the login request and that of the events request its effect may send;
  \<open>Reload\<close> is a reload of the page: the component mounts again and its effect runs.
\<close>

datatype dashboard_event =
    SetUsername string
  | SetPassword string
  | Login "response outcome" "response outcome"
  | EditName string
  | EditPhrase string
  | EditExpiration string
  | EditLogo string
  | CreateEvent "response outcome"
  | ViewAnalytics string "response outcome" "response outcome"
  | Back
  | Logout
  | Reload "response outcome"

fun dashboard_step :: "string \<Rightarrow> dashboard_event \<Rightarrow> dashboard \<Rightarrow> dashboard" where
  "dashboard_step api (SetUsername s) st =
     (if dashboard_view st = LoginView then st\<lparr>d_username := s\<rparr> else st)"
| "dashboard_step api (SetPassword s) st =
     (if dashboard_view st = LoginView then st\<lparr>d_password := s\<rparr> else st)"
| "dashboard_step api (Login out outEvents) st =
     (if dashboard_view st = LoginView
      then token_effect api outEvents (d_token st) (handleLogin api out st) else st)"
| "dashboard_step api (EditName s) st =
     (if dashboard_view st = EventListView
      then st\<lparr>d_newEvent := (d_newEvent st)\<lparr>ne_name := s\<rparr>\<rparr> else st)"
| "dashboard_step api (EditPhrase s) st =
     (if dashboard_view st = EventListView
      then st\<lparr>d_newEvent := (d_newEvent st)\<lparr>ne_phrase := s\<rparr>\<rparr> else st)"
| "dashboard_step api (EditExpiration s) st =
     (if dashboard_view st = EventListView
      then st\<lparr>d_newEvent := (d_newEvent st)\<lparr>ne_expiration_days := num_or (parseInt s) (Num 30)\<rparr>\<rparr>
      else st)"
| "dashboard_step api (EditLogo s) st =
     (if dashboard_view st = EventListView
      then st\<lparr>d_newEvent := (d_newEvent st)\<lparr>ne_logo_url := s\<rparr>\<rparr> else st)"
| "dashboard_step api (CreateEvent out) st =
     (if dashboard_view st = EventListView then handleCreateEvent api out st else st)"
| "dashboard_step api (ViewAnalytics eventId outEvt outUploads) st =
     (if dashboard_view st = EventListView then loadAnalytics api eventId outEvt outUploads st
      else st)"
| "dashboard_step api Back st =
     (if dashboard_view st = AnalyticsView then st\<lparr>d_activeView := ''events''\<rparr> else st)"
| "dashboard_step api Logout st =
     (if dashboard_view st = LoginView then st else logout st)"
| "dashboard_step api (Reload outEvents) st =
     (let st' = dashboard_mount (d_localStorage st) (d_sent st)
      in if truthy (d_token st') then fetchEvents api outEvents st' else st')"

text \<open>A session: the actions in order, from a first visit with an empty store.\<close>

definition dashboard_fresh :: dashboard where
  "dashboard_fresh = dashboard_mount (\<lambda>k. None) []"

definition dashboard_run :: "string \<Rightarrow> dashboard_event list \<Rightarrow> dashboard" where
  "dashboard_run api evs = foldl (\<lambda>st ev. dashboard_step api ev st) dashboard_fresh evs"

section \<open>Notions the claims are stated with\<close>

subsection \<open>File names\<close>




text \<open>Two uploads as the backend lists them, as a sample: a photo and a video.\<close>

definition sample_items :: "jsval list" where
  "sample_items =
     [JObj [(''upload_id'', JStr ''u1''), (''url'', JStr ''/media/a.jpg''),
            (''filename'', JStr ''a.jpg'')],
      JObj [(''upload_id'', JStr ''u2''), (''url'', JStr ''/media/b.mp4''),
            (''filename'', JStr ''b.Mp4'')]]"

subsection \<open>Paths and query parameters\<close>

text \<open>The non-empty segments of a path, in order.\<close>

definition segments :: "string \<Rightarrow> string list" where
  "segments path = filter (\<lambda>p. p \<noteq> []) (split CHR ''/'' path)"

text \<open>\<^verbatim>\<open>params.has(name)\<close>: some pair carries the name, whatever its value.\<close>

definition has_param :: "(string \<times> string) list \<Rightarrow> string \<Rightarrow> bool" where
  "has_param ps name = (name \<in> set (map fst ps))"

subsection \<open>The gallery's response\<close>

text \<open>
  The \<open>media\<close> array of a response, the empty list when the response carries none (no
  JSON body, no object, no \<open>media\<close> member, or one that is no array).
\<close>

definition response_media :: "response \<Rightarrow> jsval list" where
  "response_media res =
     (case json res of
        Some (JObj kvs) \<Rightarrow> (case map_of kvs ''media'' of Some (JArr items) \<Rightarrow> items | _ \<Rightarrow> [])
      | _ \<Rightarrow> [])"

text \<open>
  The response keeps to the interface: its \<open>media\<close> member, when there is one, is an
  array, or else null or another falsy value.
\<close>

definition media_is_list :: "response \<Rightarrow> bool" where
  "media_is_list res =
     (case json res of
        Some (JObj kvs) \<Rightarrow>
          (case map_of kvs ''media'' of
             None \<Rightarrow> True | Some (JArr items) \<Rightarrow> True | Some v \<Rightarrow> \<not> truthy v)
      | _ \<Rightarrow> True)"

subsection \<open>The dashboard's requests\<close>

text \<open>The request that creates an event: a POST to \<^verbatim>\<open>{API_BASE}/events\<close>.\<close>

definition is_create_event :: "string \<Rightarrow> request \<Rightarrow> bool" where
  "is_create_event api r = (http_method r = ''POST'' \<and> http_url r = api @ ''/events'')"

text \<open>A sample session: a first visit and a successful login.\<close>

definition logged_in :: dashboard where
  "logged_in =
     dashboard_run ''api''
       [Login (Resolved \<lparr>ok = True, json = Some (JObj [(''token'', JStr ''t0'')])\<rparr>) Rejected]"

text \<open>
  The protected events endpoints: \<^verbatim>\<open>/events\<close> itself and everything below
  \<^verbatim>\<open>/events/\<close>.
\<close>

definition protected :: "string \<Rightarrow> request \<Rightarrow> bool" where
  "protected api r =
     (http_url r = api @ ''/events'' \<or> prefix (api @ ''/events/'') (http_url r))"

text \<open>
  A login exchange, and the token it returned: \<^verbatim>\<open>data.token\<close> of an ok response, as
  the string that \<^verbatim>\<open>localStorage\<close> and a template literal make of it.
\<close>

definition is_login :: "string \<Rightarrow> request \<Rightarrow> bool" where
  "is_login api r = (http_method r = ''POST'' \<and> http_url r = api @ ''/login'')"

definition login_reply_token :: "response outcome \<Rightarrow> string option" where
  "login_reply_token out =
     (case out of
        Rejected \<Rightarrow> None
      | Resolved res \<Rightarrow>
          if ok res then
            (case json res of
               None \<Rightarrow> None
             | Some data \<Rightarrow>
                 (case get_prop data ''token'' of Inl e \<Rightarrow> None | Inr t \<Rightarrow> Some (to_string t)))
          else None)"

text \<open>The token of a request: what follows \<^verbatim>\<open>Bearer \<close> in its Authorization header.\<close>

definition bearer :: "request \<Rightarrow> string option" where
  "bearer r =
     (case map_of (http_headers r) ''Authorization'' of
        None \<Rightarrow> None
      | Some v \<Rightarrow> if take 7 v = ''Bearer '' then Some (drop 7 v) else None)"

text \<open>Some login exchange of the log returned the token \<open>t\<close>.\<close>

definition from_login :: "string \<Rightarrow> (request \<times> response outcome) list \<Rightarrow> string \<Rightarrow> bool" where
  "from_login api log t =
     list_ex (\<lambda>l. is_login api (fst l) \<and> login_reply_token (snd l) = Some t) log"

text \<open>
  Every protected request of the log (the part \<open>seen\<close> came before it) carries a token
  that a login exchange earlier in the log returned.
\<close>

fun well_authorised ::
  "string \<Rightarrow> (request \<times> response outcome) list \<Rightarrow> (request \<times> response outcome) list \<Rightarrow> bool" where
  "well_authorised api seen [] = True"
| "well_authorised api seen (e # rest) =
     ((protected api (fst e) \<longrightarrow>
         (case bearer (fst e) of None \<Rightarrow> False | Some t \<Rightarrow> from_login api seen t))
      \<and> well_authorised api (seen @ [e]) rest)"

text \<open>
  The invariant of the dashboard: what is stored under \<open>tp_token\<close> was returned by a
  login, and a truthy token in the component's state is the stored one.
\<close>

definition token_inv :: "string \<Rightarrow> dashboard \<Rightarrow> bool" where
  "token_inv api st =
     ((\<forall>t. d_localStorage st ''tp_token'' = Some t \<longrightarrow> from_login api (d_sent st) t)
      \<and> (truthy (d_token st) \<longrightarrow> d_localStorage st ''tp_token'' = Some (to_string (d_token st))))"

text \<open>Another sample session, and one more action after it.\<close>

definition sample_session :: "dashboard_event list" where
  "sample_session =
     [Login (Resolved \<lparr>ok = True, json = Some (JObj [(''token'', JStr ''abc'')])\<rparr>)
            (Resolved \<lparr>ok = True, json = Some (JArr [])\<rparr>),
      CreateEvent Rejected]"

definition sample_view :: dashboard_event where
  "sample_view = ViewAnalytics ''e1'' (Resolved \<lparr>ok = True, json = Some (JObj [])\<rparr>) Rejected"

subsection \<open>Registration requests\<close>

text \<open>The entries of a request's multipart form, none when the body is no form.\<close>

definition form_fields :: "request \<Rightarrow> (string \<times> form_value) list" where
  "form_fields r = (case http_body r of FormBody entries \<Rightarrow> entries | _ \<Rightarrow> [])"

text \<open>
  A registration request as the interface describes it: a POST to
  \<^verbatim>\<open>{API_BASE}/register\<close> whose form has exactly the fields \<open>event_id\<close>, \<open>phone\<close> and
  \<open>selfie\<close>, the first two with the given values, the third a file.
\<close>

definition registration_shape :: "string \<Rightarrow> string \<Rightarrow> string \<Rightarrow> request \<Rightarrow> bool" where
  "registration_shape api eventId phone r =
     (http_method r = ''POST'' \<and> http_url r = api @ ''/register''
      \<and> map fst (form_fields r) = [''event_id'', ''phone'', ''selfie'']
      \<and> map_of (form_fields r) ''event_id'' = Some (FText eventId)
      \<and> map_of (form_fields r) ''phone'' = Some (FText phone)
      \<and> (case map_of (form_fields r) ''selfie'' of Some (FFile f) \<Rightarrow> True | _ \<Rightarrow> False))"

text \<open>A sample file.\<close>

definition sample_selfie :: js_file where
  "sample_selfie = \<lparr>file_name = ''me.png'', file_type = ''image/png'', file_bytes = ''PNG''\<rparr>"

section \<open>The two video patterns\<close>

subsection \<open>Case folding\<close>





subsection \<open>What the patterns match\<close>










subsection \<open>Counting and rendering\<close>





section \<open>The gallery\<close>

subsection \<open>A successful fetch\<close>

lemma media_cells_length:
  "media_cells api items = Inr cs \<Longrightarrow>
     length cs = length items \<and> (\<forall>i < length items. media_cell api (items ! i) = Inr (cs ! i))"
proof (induction items arbitrary: cs)
  case Nil
  then show ?case by simp
next
  case (Cons item items)
  from Cons.prems obtain c cs' where c: "media_cell api item = Inr c"
    and cs': "media_cells api items = Inr cs'" and cs: "cs = c # cs'"
    by (auto split: sum.splits)
  from Cons.IH[OF cs'] show ?case using c cs
    by (auto simp: nth_Cons split: nat.splits)
qed

lemma fetchMedia_ok_media:
  assumes "ok res" and "media_is_list res"
  shows "g_media (fetchMedia (Resolved res) Gallery_init) = JArr (response_media res)"
proof (cases "json res")
  case None
  then show ?thesis by (simp add: fetchMedia_def response_media_def Gallery_init_def)
next
  case (Some data)
  show ?thesis
  proof (cases data)
    case (JObj kvs)
    show ?thesis
    proof (cases "map_of kvs ''media''")
      case None
      then show ?thesis using Some JObj assms
        by (simp add: fetchMedia_def response_media_def Gallery_init_def js_or_def)
    next
      case (Some m)
      note m = Some
      show ?thesis using \<open>json res = Some data\<close> JObj m assms
        by (cases m)
          (simp_all add: fetchMedia_def response_media_def Gallery_init_def js_or_def
            media_is_list_def)
    qed
  qed (use Some assms in \<open>simp_all add: fetchMedia_def response_media_def Gallery_init_def js_or_def\<close>)
qed

lemma fetchMedia_ok_render:
  assumes "ok res" and "json res = Some (JObj kvs)"
  shows "g_error (fetchMedia (Resolved res) Gallery_init) = JStr []"
    and "\<not> g_loading (fetchMedia (Resolved res) Gallery_init)"
  using assms by (simp_all add: fetchMedia_def Gallery_init_def)

text \<open>
  Claim C1. After a successful response to the gallery fetch (\<open>gallery_request\<close>), the
  component's media list is exactly the \<open>media\<close> array of the response, and the empty list
  when the response carries none. When the body is a JSON object the component renders
  the grid over that same list: one cell per item, in order, nothing added or dropped.
  The response is taken to keep to the interface (\<open>media_is_list\<close>).
\<close>

theorem gallery_media_is_response_media:
  assumes "ok res" and "media_is_list res"
  shows "g_media (fetchMedia (Resolved res) Gallery_init) = JArr (response_media res)
    \<and> (\<forall>kvs. json res = Some (JObj kvs) \<longrightarrow>
          Gallery_render api (fetchMedia (Resolved res) Gallery_init) =
            (case media_cells api (response_media res) of
               Inl e \<Rightarrow> Inl e | Inr cs \<Rightarrow> Inr (MediaGrid cs)))
    \<and> (\<forall>cs. media_cells api (response_media res) = Inr cs \<longrightarrow>
          length cs = length (response_media res)
          \<and> (\<forall>i < length cs. media_cell api (response_media res ! i) = Inr (cs ! i)))"
proof (intro conjI allI impI)
  show m: "g_media (fetchMedia (Resolved res) Gallery_init) = JArr (response_media res)"
    using assms by (rule fetchMedia_ok_media)
  show "Gallery_render api (fetchMedia (Resolved res) Gallery_init) =
            (case media_cells api (response_media res) of
               Inl e \<Rightarrow> Inl e | Inr cs \<Rightarrow> Inr (MediaGrid cs))"
    if "json res = Some (JObj kvs)" for kvs
    using fetchMedia_ok_render[OF assms(1) that] m
    by (simp add: Gallery_render_def)
  show "length cs = length (response_media res)"
    if "media_cells api (response_media res) = Inr cs" for cs
    using media_cells_length[OF that] by simp
  show "media_cell api (response_media res ! i) = Inr (cs ! i)"
    if "media_cells api (response_media res) = Inr cs" "i < length cs" for cs i
    using media_cells_length[OF that(1)] that(2) by simp
qed

theorem gallery_media_is_response_media_witness:
  "g_media (fetchMedia (Resolved \<lparr>ok = True, json = Some (JObj [(''media'', JArr sample_items)])\<rparr>)
      Gallery_init) = JArr sample_items
   \<and> Gallery_render ''api''
        (fetchMedia (Resolved \<lparr>ok = True, json = Some (JObj [(''media'', JArr sample_items)])\<rparr>)
          Gallery_init)
       = Inr (MediaGrid [ImgEl ''api/media/a.jpg'', VideoEl ''api/media/b.mp4''])
   \<and> g_media (fetchMedia (Resolved \<lparr>ok = True, json = Some (JObj [])\<rparr>) Gallery_init) = JArr []"
proof -
  let ?r1 = "\<lparr>ok = True, json = Some (JObj [(''media'', JArr sample_items)])\<rparr>"
  let ?r2 = "\<lparr>ok = True, json = Some (JObj [])\<rparr>"
  have ok: "ok ?r1" "ok ?r2" by simp_all
  have wf: "media_is_list ?r1" "media_is_list ?r2" by (simp_all add: media_is_list_def)
  have rm: "response_media ?r1 = sample_items" "response_media ?r2 = []"
    by (simp_all add: response_media_def)
  have cells: "media_cells ''api'' sample_items
      = Inr [ImgEl ''api/media/a.jpg'', VideoEl ''api/media/b.mp4'']"
    by code_simp
  note full = gallery_media_is_response_media[OF ok(1) wf(1), of "''api''", unfolded rm cells]
  note none = gallery_media_is_response_media[OF ok(2) wf(2), of "''api''", unfolded rm]
  from full none show ?thesis by simp
qed

subsection \<open>A failed fetch\<close>







section \<open>Routing in the microsite\<close>

lemma split_not_Nil: "split c s \<noteq> []"
  by (induction s) (auto split: list.splits)

lemma split_pieces: "p \<in> set (split c s) \<Longrightarrow> c \<notin> set p"
proof (induction s arbitrary: p)
  case Nil
  then show ?case by simp
next
  case (Cons x xs)
  then show ?case
    by (cases "split c xs") (auto simp: split_not_Nil split: if_splits)
qed

lemma split_join: "join [c] (split c s) = s"
proof (induction s)
  case Nil
  then show ?case by simp
next
  case (Cons x xs)
  show ?case
  proof (cases "split c xs")
    case Nil
    then show ?thesis using split_not_Nil by blast
  next
    case (Cons p ps)
    then show ?thesis using Cons.IH by (cases ps) auto
  qed
qed

lemma segments_nonempty: "p \<in> set (segments path) \<Longrightarrow> p \<noteq> [] \<and> CHR ''/'' \<notin> set p"
  by (auto simp: segments_def dest: split_pieces)

lemma getGalleryToken_iff:
  "getGalleryToken loc = Some tok \<longleftrightarrow> (\<exists>rest. segments (pathname loc) = ''gallery'' # tok # rest)"
proof (cases "segments (pathname loc)")
  case Nil
  then show ?thesis by (simp add: getGalleryToken_def segments_def nth_opt_def)
next
  case (Cons a as)
  note outer = Cons
  show ?thesis
  proof (cases as)
    case Nil
    then show ?thesis using outer
      by (simp add: getGalleryToken_def segments_def[symmetric] nth_opt_def truthy_opt_def)
  next
    case (Cons b bs)
    have "b \<in> set (segments (pathname loc))" using outer Cons by simp
    then have "b \<noteq> []" using segments_nonempty by blast
    then show ?thesis using outer Cons
      by (auto simp: getGalleryToken_def segments_def[symmetric] nth_opt_def truthy_opt_def)
  qed
qed

lemma getGalleryToken_truthy: "getGalleryToken loc = Some tok \<Longrightarrow> tok \<noteq> []"
  using getGalleryToken_iff[of loc tok] segments_nonempty[of tok "pathname loc"] by auto

text \<open>
  Claim C9, as stated, fails: with the query \<^verbatim>\<open>?event=\<close> the \<open>event\<close> parameter is
  present and the path is no gallery path, yet the landing page is rendered, because the
  empty value is falsy.
\<close>

theorem App_event_present_counterexample:
  "has_param (search_params \<lparr>pathname = ''/'', search_params = [(''event'', '''')]\<rparr>) ''event''
   \<and> getGalleryToken \<lparr>pathname = ''/'', search_params = [(''event'', '''')]\<rparr> = None
   \<and> App \<lparr>pathname = ''/'', search_params = [(''event'', '''')]\<rparr> = LandingPage"
  by code_simp

text \<open>
  Claim C9, amended. The microsite renders the gallery if and only if the first non-empty
  segment of the path is \<open>gallery\<close> and a second non-empty segment exists, which is the
  token; otherwise it renders the registration if and only if the \<open>event\<close> parameter is
  present with a non-empty value; otherwise the landing page. A gallery path wins over
  an \<open>event\<close> parameter.
\<close>

theorem App_routing:
  "(App loc = GalleryPage tok \<longleftrightarrow> (\<exists>rest. segments (pathname loc) = ''gallery'' # tok # rest))
   \<and> (App loc = RegisterPage ev \<longleftrightarrow>
        \<not> (\<exists>tok rest. segments (pathname loc) = ''gallery'' # tok # rest)
        \<and> params_get (search_params loc) ''event'' = Some ev \<and> ev \<noteq> [])
   \<and> (App loc = LandingPage \<longleftrightarrow>
        \<not> (\<exists>tok rest. segments (pathname loc) = ''gallery'' # tok # rest)
        \<and> (params_get (search_params loc) ''event'' = None
             \<or> params_get (search_params loc) ''event'' = Some []))
   \<and> (App loc = GalleryPage tok \<longrightarrow> tok \<noteq> [] \<and> CHR ''/'' \<notin> set tok)"
proof (cases "getGalleryToken loc")
  case None
  then have no: "\<not> (\<exists>tok rest. segments (pathname loc) = ''gallery'' # tok # rest)"
    using getGalleryToken_iff[of loc] by auto
  show ?thesis
    using None no
    by (cases "params_get (search_params loc) ''event''")
       (auto simp: App_def Let_def truthy_opt_def getRegisterEvent_def)
next
  case (Some t)
  then have t: "t \<noteq> []" by (rule getGalleryToken_truthy)
  from Some have seg: "\<exists>rest. segments (pathname loc) = ''gallery'' # t # rest"
    using getGalleryToken_iff by blast
  then have "t \<in> set (segments (pathname loc))" by auto
  then have "CHR ''/'' \<notin> set t" using segments_nonempty by blast
  then show ?thesis using Some t seg
    by (auto simp: App_def Let_def truthy_opt_def)
qed

theorem App_routing_witness:
  "App \<lparr>pathname = ''/gallery/tok123'', search_params = [(''event'', ''e1'')]\<rparr> = GalleryPage ''tok123''
   \<and> App \<lparr>pathname = ''/register'', search_params = [(''event'', ''e1'')]\<rparr> = RegisterPage ''e1''
   \<and> App \<lparr>pathname = ''/gallery/'', search_params = []\<rparr> = LandingPage"
proof -
  let ?l1 = "\<lparr>pathname = ''/gallery/tok123'', search_params = [(''event'', ''e1'')]\<rparr>"
  let ?l2 = "\<lparr>pathname = ''/register'', search_params = [(''event'', ''e1'')]\<rparr>"
  let ?l3 = "\<lparr>pathname = ''/gallery/'', search_params = []\<rparr>"
  have s: "segments (pathname ?l1) = [''gallery'', ''tok123'']"
    "segments (pathname ?l2) = [''register'']" "segments (pathname ?l3) = [''gallery'']"
    by code_simp+
  have p: "params_get (search_params ?l2) ''event'' = Some ''e1''"
    "params_get (search_params ?l3) ''event'' = None"
    by (simp_all add: params_get_def)
  from App_routing[of ?l1 "''tok123''" "''e1''"] App_routing[of ?l2 "''tok123''" "''e1''"]
    App_routing[of ?l3 "''tok123''" "''e1''"]
  show ?thesis unfolding s p by simp
qed

section \<open>The slideshow's timer\<close>

lemma tick_media [simp]: "s_media (tick st) = s_media st"
  by (simp add: tick_def)

lemma tick_error [simp]: "s_error (tick st) = s_error st"
  by (simp add: tick_def)

lemma ticks_media [simp]: "s_media ((tick ^^ k) st) = s_media st"
  by (induction k) simp_all

lemma ticks_error [simp]: "s_error ((tick ^^ k) st) = s_error st"
  by (induction k) simp_all

lemma tick_current:
  assumes "s_current st < length (s_media st)"
  shows "s_current (tick st) = (s_current st + 1) mod length (s_media st)"
proof (cases "length (s_media st) > 1")
  case True
  then show ?thesis by (simp add: tick_def)
next
  case False
  with assms have "length (s_media st) = 1" "s_current st = 0" by simp_all
  then show ?thesis by (simp add: tick_def)
qed

lemma ticks_current:
  assumes "s_current st < length (s_media st)"
  shows "s_current ((tick ^^ k) st) = (s_current st + k) mod length (s_media st)"
proof (induction k)
  case 0
  then show ?case using assms by simp
next
  case (Suc k)
  have "0 < length (s_media st)" using assms by (cases "s_media st") auto
  then have "s_current ((tick ^^ k) st) < length (s_media ((tick ^^ k) st))"
    using Suc by simp
  from tick_current[OF this] Suc show ?case
    by (simp add: mod_Suc_eq)
qed

text \<open>
  Claim C6. For a fetched media list of length \<open>n \<ge> 1\<close>, a firing of the timer takes
  the current index \<open>i\<close> to \<open>(i + 1) mod n\<close> (with a single item no timer runs and the
  index stays \<open>0\<close>, which is \<open>(0 + 1) mod 1\<close>). From the loaded state the index after \<open>k\<close>
  firings is \<open>k mod n\<close>: it stays below \<open>n\<close>, it is \<open>0\<close> again after \<open>n\<close> firings, and
  item \<open>j\<close> of the list is the one rendered after \<open>j\<close> firings, so every item is shown.
\<close>

theorem slideshow_cycles:
  assumes "1 \<le> length items"
  shows "(\<forall>st. s_media st = items \<and> s_current st < length items \<longrightarrow>
            s_current (tick st) = (s_current st + 1) mod length items \<and> s_media (tick st) = items)
    \<and> (\<forall>k. s_current ((tick ^^ k) (slideshow_loaded items)) = k mod length items
            \<and> s_current ((tick ^^ k) (slideshow_loaded items)) < length items)
    \<and> s_current ((tick ^^ length items) (slideshow_loaded items)) = 0
    \<and> (\<forall>j < length items.
          nth_opt (s_media ((tick ^^ j) (slideshow_loaded items)))
                  (s_current ((tick ^^ j) (slideshow_loaded items))) = Some (items ! j)
          \<and> (\<forall>ev. ev \<noteq> [] \<longrightarrow>
                slideshow_render api (Some ev) ((tick ^^ j) (slideshow_loaded items)) =
                  (case media_cell api (items ! j) of
                     Inl e \<Rightarrow> Inl e
                   | Inr el \<Rightarrow> Inr (Slide el (dec (j + 1) @ '' / '' @ dec (length items))))))"
proof -
  let ?st = "slideshow_loaded items"
  have m: "s_media ?st = items" and c: "s_current ?st = 0"
    by (simp_all add: slideshow_loaded_def)
  have pos: "0 < length items" using assms by (cases items) auto
  have lt: "s_current ?st < length (s_media ?st)" using pos m c by simp
  have cur: "s_current ((tick ^^ k) ?st) = k mod length items" for k
    using ticks_current[OF lt, of k] m c by simp
  have step: "s_current (tick st) = (s_current st + 1) mod length items \<and> s_media (tick st) = items"
    if "s_media st = items \<and> s_current st < length items" for st
    using that tick_current[of st] by simp
  have shown: "nth_opt (s_media ((tick ^^ j) ?st)) (s_current ((tick ^^ j) ?st)) = Some (items ! j)"
    if "j < length items" for j
    using that by (simp add: cur m nth_opt_def)
  have e: "s_error ((tick ^^ j) ?st) = JStr []" for j
    by (simp add: slideshow_loaded_def)
  have rendered: "slideshow_render api (Some ev) ((tick ^^ j) ?st) =
      (case media_cell api (items ! j) of
         Inl e \<Rightarrow> Inl e
       | Inr el \<Rightarrow> Inr (Slide el (dec (j + 1) @ '' / '' @ dec (length items))))"
    if "j < length items" "ev \<noteq> []" for j ev
  proof -
    have cj: "s_current ((tick ^^ j) ?st) = j" using cur[of j] that by simp
    have mj: "s_media ((tick ^^ j) ?st) = items" by (simp add: m)
    have ne: "length items \<noteq> 0" using pos by simp
    show ?thesis
      unfolding slideshow_render_def cj mj e using that ne
      by (simp add: truthy_opt_def nth_opt_def split: sum.splits)
  qed
  from step cur shown rendered pos show ?thesis by simp
qed

theorem slideshow_cycles_witness:
  "s_current (tick (slideshow_loaded [JStr ''a'', JStr ''b'', JStr ''c''])) = 1
   \<and> s_current ((tick ^^ 2) (slideshow_loaded [JStr ''a'', JStr ''b'', JStr ''c''])) = 2
   \<and> s_current ((tick ^^ 3) (slideshow_loaded [JStr ''a'', JStr ''b'', JStr ''c''])) = 0
   \<and> nth_opt (s_media ((tick ^^ 2) (slideshow_loaded [JStr ''a'', JStr ''b'', JStr ''c''])))
        (s_current ((tick ^^ 2) (slideshow_loaded [JStr ''a'', JStr ''b'', JStr ''c''])))
       = Some (JStr ''c'')
   \<and> s_current ((tick ^^ 5) (slideshow_loaded [JStr ''only''])) = 0"
proof -
  let ?xs = "[JStr ''a'', JStr ''b'', JStr ''c'']"
  have n: "1 \<le> length ?xs" "1 \<le> length [JStr ''only'']" by simp_all
  have l: "length ?xs = 3" by simp
  note three = slideshow_cycles[OF n(1), unfolded l]
  note one = slideshow_cycles[OF n(2)]
  from three have k3: "\<forall>k. s_current ((tick ^^ k) (slideshow_loaded ?xs)) = k mod 3
      \<and> s_current ((tick ^^ k) (slideshow_loaded ?xs)) < 3"
    and c: "s_current ((tick ^^ 3) (slideshow_loaded ?xs)) = 0"
    and j3: "\<forall>j < 3. nth_opt (s_media ((tick ^^ j) (slideshow_loaded ?xs)))
        (s_current ((tick ^^ j) (slideshow_loaded ?xs))) = Some (?xs ! j)"
    by blast+
  from one have k1: "\<forall>k. s_current ((tick ^^ k) (slideshow_loaded [JStr ''only''])) = k mod 1
      \<and> s_current ((tick ^^ k) (slideshow_loaded [JStr ''only''])) < 1"
    by simp
  have a: "s_current ((tick ^^ 1) (slideshow_loaded ?xs)) = 1"
    using k3[rule_format, of 1] by simp
  have b: "s_current ((tick ^^ 2) (slideshow_loaded ?xs)) = 2"
    using k3[rule_format, of 2] by simp
  have d: "nth_opt (s_media ((tick ^^ 2) (slideshow_loaded ?xs)))
        (s_current ((tick ^^ 2) (slideshow_loaded ?xs))) = Some (JStr ''c'')"
    using j3[rule_format, of 2] by simp
  have e: "s_current ((tick ^^ 5) (slideshow_loaded [JStr ''only''])) = 0"
    using k1[rule_format, of 5] by simp
  from a b c d e show ?thesis by simp
qed

section \<open>The dashboard\<close>

subsection \<open>What each handler changes\<close>

lemma fetchEvents_frame [simp]:
  "d_sent (fetchEvents api out st) = d_sent st @ [(events_request api (d_token st), out)]"
  "d_token (fetchEvents api out st) = d_token st"
  "d_localStorage (fetchEvents api out st) = d_localStorage st"
  "d_newEvent (fetchEvents api out st) = d_newEvent st"
  "d_activeView (fetchEvents api out st) = d_activeView st"
  by (simp_all add: fetchEvents_def Let_def split: outcome.splits option.splits)

lemma token_effect_frame [simp]:
  "d_token (token_effect api out old st) = d_token st"
  "d_localStorage (token_effect api out old st) = d_localStorage st"
  "d_newEvent (token_effect api out old st) = d_newEvent st"
  "d_activeView (token_effect api out old st) = d_activeView st"
  by (simp_all add: token_effect_def)

lemma token_effect_sent:
  "d_sent (token_effect api out old st) = d_sent st
   \<or> (truthy (d_token st)
      \<and> d_sent (token_effect api out old st) = d_sent st @ [(events_request api (d_token st), out)])"
  by (simp add: token_effect_def)

lemma handleLogin_frame [simp]:
  "d_sent (handleLogin api out st) =
     d_sent st @ [(login_request api (d_username st) (d_password st), out)]"
  "d_newEvent (handleLogin api out st) = d_newEvent st"
  "d_activeView (handleLogin api out st) = d_activeView st"
  by (simp_all add: handleLogin_def Let_def split: outcome.splits option.splits sum.splits)

lemma handleCreateEvent_frame [simp]:
  "d_sent (handleCreateEvent api out st) =
     d_sent st @ [(create_event_request api (d_token st) (d_newEvent st), out)]"
  "d_token (handleCreateEvent api out st) = d_token st"
  "d_localStorage (handleCreateEvent api out st) = d_localStorage st"
  "d_activeView (handleCreateEvent api out st) = d_activeView st"
  by (simp_all add: handleCreateEvent_def Let_def split: outcome.splits option.splits sum.splits)

lemma handleCreateEvent_newEvent:
  "d_newEvent (handleCreateEvent api out st) = d_newEvent st
   \<or> d_newEvent (handleCreateEvent api out st) = new_event_blank"
  by (simp add: handleCreateEvent_def Let_def split: outcome.splits option.splits sum.splits)

lemma loadAnalytics_frame [simp]:
  "d_token (loadAnalytics api eventId o1 o2 st) = d_token st"
  "d_localStorage (loadAnalytics api eventId o1 o2 st) = d_localStorage st"
  "d_newEvent (loadAnalytics api eventId o1 o2 st) = d_newEvent st"
  by (simp_all add: loadAnalytics_def Let_def split: outcome.splits option.splits)

lemma loadAnalytics_sent:
  "d_sent (loadAnalytics api eventId o1 o2 st) = d_sent st @ [(event_request api (d_token st) eventId, o1)]
   \<or> d_sent (loadAnalytics api eventId o1 o2 st) =
       d_sent st @ [(event_request api (d_token st) eventId, o1),
                    (uploads_request api (d_token st) eventId, o2)]"
  by (simp add: loadAnalytics_def Let_def split: outcome.splits option.splits)

lemma logout_frame [simp]:
  "d_sent (logout st) = d_sent st"
  "d_newEvent (logout st) = d_newEvent st"
  "d_token (logout st) = JNull"
  by (simp_all add: logout_def)

lemma dashboard_mount_frame [simp]:
  "d_sent (dashboard_mount storage log) = log"
  "d_newEvent (dashboard_mount storage log) = new_event_blank"
  "d_localStorage (dashboard_mount storage log) = storage"
  by (simp_all add: dashboard_mount_def)

lemma dashboard_run_snoc:
  "dashboard_run api (evs @ [ev]) = dashboard_step api ev (dashboard_run api evs)"
  by (simp add: dashboard_run_def)

subsection \<open>The expiration field\<close>

lemma takeWhile_none: "\<forall>c \<in> set s. \<not> P c \<Longrightarrow> takeWhile P s = []"
  by (cases s) auto

lemma digit_zero: "is_digit 10 CHR ''0''"
  by (simp add: is_digit_def digit_of_def)

lemma parseInt_no_digit:
  assumes "\<forall>c \<in> set s. \<not> is_digit 10 c"
  shows "parseInt s = NaN"
proof -
  define s1 where "s1 = dropWhile is_ws s"
  define s2 where "s2 = (if take 1 s1 = ''+'' \<or> take 1 s1 = ''-'' then drop 1 s1 else s1)"
  have "set s1 \<subseteq> set s" unfolding s1_def by (auto dest: set_dropWhileD)
  moreover have "set s2 \<subseteq> set s1" unfolding s2_def by (auto dest: in_set_dropD)
  ultimately have nd: "\<forall>c \<in> set s2. \<not> is_digit 10 c" using assms by blast
  have nohex: "\<not> (take 2 s2 = ''0x'' \<or> take 2 s2 = ''0X'')"
  proof
    assume "take 2 s2 = ''0x'' \<or> take 2 s2 = ''0X''"
    then have "CHR ''0'' \<in> set (take 2 s2)" by auto
    then have "CHR ''0'' \<in> set s2" by (rule in_set_takeD)
    with nd digit_zero show False by blast
  qed
  have "takeWhile (is_digit 10) s2 = []" using nd by (rule takeWhile_none)
  then show ?thesis
    unfolding parseInt_def Let_def s1_def[symmetric] s2_def[symmetric] using nohex by simp
qed

lemma num_or_ok: "num_or n (Num 30) \<noteq> NaN \<and> num_or n (Num 30) \<noteq> Num 0"
  by (simp add: num_or_def)

lemma num_or_cases:
  "num_or n (Num 30) = (if n \<noteq> NaN \<and> n \<noteq> Num 0 then n else Num 30)"
  by (simp add: num_or_def)

lemma blank_expiration [simp]: "ne_expiration_days new_event_blank = Num 30"
  by (simp add: new_event_blank_def)

lemma step_expiration:
  assumes "ne_expiration_days (d_newEvent st) \<noteq> NaN \<and> ne_expiration_days (d_newEvent st) \<noteq> Num 0"
  shows "ne_expiration_days (d_newEvent (dashboard_step api ev st)) \<noteq> NaN
       \<and> ne_expiration_days (d_newEvent (dashboard_step api ev st)) \<noteq> Num 0"
proof (cases ev)
  case (CreateEvent out)
  then show ?thesis using assms handleCreateEvent_newEvent[of api out st] by auto
next
  case (EditExpiration s)
  then show ?thesis using assms num_or_ok[of "parseInt s"] by simp
qed (use assms in \<open>simp_all add: Let_def\<close>)

lemma create_request_distinct [simp]:
  "\<not> is_create_event api (login_request api u p)"
  "\<not> is_create_event api (events_request api t)"
  "\<not> is_create_event api (event_request api t i)"
  "\<not> is_create_event api (uploads_request api t i)"
  by (simp_all add: is_create_event_def login_request_def events_request_def
      event_request_def uploads_request_def)

lemma step_sent_create:
  assumes "e \<in> set (d_sent (dashboard_step api ev st))" and "is_create_event api (fst e)"
  shows "e \<in> set (d_sent st) \<or> fst e = create_event_request api (d_token st) (d_newEvent st)"
proof (cases ev)
  case (Login out outEvents)
  then show ?thesis
    using assms token_effect_sent[of api outEvents "d_token st" "handleLogin api out st"]
    by (auto split: if_splits)
next
  case (ViewAnalytics eventId o1 o2)
  then show ?thesis using assms loadAnalytics_sent[of api eventId o1 o2 st]
    by (auto split: if_splits)
next
  case (CreateEvent out)
  then show ?thesis using assms by (auto split: if_splits)
qed (use assms in \<open>auto simp: Let_def split: if_splits\<close>)

lemma run_expiration:
  "ne_expiration_days (d_newEvent (dashboard_run api evs)) \<noteq> NaN
   \<and> ne_expiration_days (d_newEvent (dashboard_run api evs)) \<noteq> Num 0"
proof (induction evs rule: rev_induct)
  case Nil
  then show ?case by (simp add: dashboard_run_def dashboard_fresh_def)
next
  case (snoc ev evs)
  then show ?case unfolding dashboard_run_snoc by (rule step_expiration)
qed

lemma run_create_requests:
  "e \<in> set (d_sent (dashboard_run api evs)) \<Longrightarrow> is_create_event api (fst e) \<Longrightarrow>
     \<exists>token ev. fst e = create_event_request api token ev
        \<and> ne_expiration_days ev \<noteq> NaN \<and> ne_expiration_days ev \<noteq> Num 0"
proof (induction evs rule: rev_induct)
  case Nil
  then show ?case by (simp add: dashboard_run_def dashboard_fresh_def)
next
  case (snoc ev evs)
  from step_sent_create[OF snoc.prems(1)[unfolded dashboard_run_snoc] snoc.prems(2)]
  show ?case
  proof
    assume "e \<in> set (d_sent (dashboard_run api evs))"
    then show ?thesis using snoc.IH snoc.prems(2) by blast
  next
    assume "fst e = create_event_request api (d_token (dashboard_run api evs))
               (d_newEvent (dashboard_run api evs))"
    then show ?thesis using run_expiration[of api evs] by blast
  qed
qed

text \<open>
  Claim C10. For every string \<open>s\<close> typed into the expiration field, the event object
  holds \<open>parseInt s\<close> as \<open>expiration_days\<close> when that is a number other than zero, and
  \<open>30\<close> otherwise; in particular \<^verbatim>\<open>0\<close> and every string without a digit give \<open>30\<close>.
  So in every session each request that creates an event carries an \<open>expiration_days\<close>
  that is neither \<open>0\<close> nor NaN, and after a successful creation the form is back at \<open>30\<close>.
\<close>

theorem expiration_days_default:
  "(dashboard_view st = EventListView \<longrightarrow>
      ne_expiration_days (d_newEvent (dashboard_step api (EditExpiration s) st)) =
        (if parseInt s \<noteq> NaN \<and> parseInt s \<noteq> Num 0 then parseInt s else Num 30))
   \<and> (dashboard_view st = EventListView \<and> (s = ''0'' \<or> (\<forall>c \<in> set s. \<not> is_digit 10 c)) \<longrightarrow>
      ne_expiration_days (d_newEvent (dashboard_step api (EditExpiration s) st)) = Num 30)
   \<and> (\<forall>e \<in> set (d_sent (dashboard_run api evs)). is_create_event api (fst e) \<longrightarrow>
        (\<exists>ev. http_body (fst e) = JsonBody (new_event_json ev)
           \<and> ne_expiration_days ev \<noteq> NaN \<and> ne_expiration_days ev \<noteq> Num 0))
   \<and> (dashboard_view st = EventListView \<and> ok res \<and> json res = Some data \<longrightarrow>
        d_newEvent (dashboard_step api (CreateEvent (Resolved res)) st) = new_event_blank
        \<and> ne_expiration_days new_event_blank = Num 30)"
proof (intro conjI impI ballI)
  assume v: "dashboard_view st = EventListView"
  then show "ne_expiration_days (d_newEvent (dashboard_step api (EditExpiration s) st)) =
        (if parseInt s \<noteq> NaN \<and> parseInt s \<noteq> Num 0 then parseInt s else Num 30)"
    by (simp add: num_or_cases)
next
  assume a: "dashboard_view st = EventListView \<and> (s = ''0'' \<or> (\<forall>c \<in> set s. \<not> is_digit 10 c))"
  have zero: "parseInt ''0'' = Num 0" by code_simp
  from a have "parseInt s = Num 0 \<or> parseInt s = NaN"
    using zero parseInt_no_digit[of s] by blast
  then show "ne_expiration_days (d_newEvent (dashboard_step api (EditExpiration s) st)) = Num 30"
    using a by (auto simp: num_or_cases)
next
  fix e assume "e \<in> set (d_sent (dashboard_run api evs))" "is_create_event api (fst e)"
  from run_create_requests[OF this]
  show "\<exists>ev. http_body (fst e) = JsonBody (new_event_json ev)
           \<and> ne_expiration_days ev \<noteq> NaN \<and> ne_expiration_days ev \<noteq> Num 0"
    by (auto simp: create_event_request_def)
next
  assume "dashboard_view st = EventListView \<and> ok res \<and> json res = Some data"
  then show "d_newEvent (dashboard_step api (CreateEvent (Resolved res)) st) = new_event_blank"
    by (simp add: handleCreateEvent_def)
next
  show "ne_expiration_days new_event_blank = Num 30" by simp
qed

theorem expiration_days_default_witness:
  "ne_expiration_days (d_newEvent (dashboard_step ''api'' (EditExpiration ''7'') logged_in)) = Num 7
   \<and> ne_expiration_days (d_newEvent (dashboard_step ''api'' (EditExpiration ''0'') logged_in)) = Num 30
   \<and> ne_expiration_days (d_newEvent (dashboard_step ''api'' (EditExpiration ''abc'') logged_in)) = Num 30
   \<and> (\<exists>ev. http_body (fst (last (d_sent (dashboard_run ''api''
          [Login (Resolved \<lparr>ok = True, json = Some (JObj [(''token'', JStr ''t0'')])\<rparr>) Rejected,
           EditExpiration ''0'', CreateEvent Rejected])))) = JsonBody (new_event_json ev)
        \<and> ne_expiration_days ev \<noteq> NaN \<and> ne_expiration_days ev \<noteq> Num 0)
   \<and> d_newEvent (dashboard_step ''api''
        (CreateEvent (Resolved \<lparr>ok = True, json = Some (JObj [(''id'', JStr ''e1'')])\<rparr>))
        (dashboard_step ''api'' (EditExpiration ''7'') logged_in)) = new_event_blank"
proof -
  let ?evs = "[Login (Resolved \<lparr>ok = True, json = Some (JObj [(''token'', JStr ''t0'')])\<rparr>) Rejected,
           EditExpiration ''0'', CreateEvent Rejected]"
  let ?res = "\<lparr>ok = True, json = Some (JObj [(''id'', JStr ''e1'')])\<rparr>"
  let ?st7 = "dashboard_step ''api'' (EditExpiration ''7'') logged_in"
  have v: "dashboard_view logged_in = EventListView" "dashboard_view ?st7 = EventListView"
    by code_simp+
  have p: "parseInt ''7'' = Num 7" by code_simp
  have nd: "\<forall>c \<in> set ''abc''. \<not> is_digit 10 c" by code_simp
  have last: "last (d_sent (dashboard_run ''api'' ?evs)) \<in> set (d_sent (dashboard_run ''api'' ?evs))"
    "is_create_event ''api'' (fst (last (d_sent (dashboard_run ''api'' ?evs))))"
    by code_simp+
  have r: "ok ?res \<and> json ?res = Some (JObj [(''id'', JStr ''e1'')])" by simp
  note t7 = expiration_days_default[of logged_in "''api''" "''7''" ?evs ?res "JObj [(''id'', JStr ''e1'')]"]
  note t0 = expiration_days_default[of logged_in "''api''" "''0''" ?evs ?res "JObj [(''id'', JStr ''e1'')]"]
  note ta = expiration_days_default[of logged_in "''api''" "''abc''" ?evs ?res "JObj [(''id'', JStr ''e1'')]"]
  note tc = expiration_days_default[of ?st7 "''api''" "''7''" ?evs ?res "JObj [(''id'', JStr ''e1'')]"]
  have a: "ne_expiration_days (d_newEvent (dashboard_step ''api'' (EditExpiration ''7'') logged_in)) = Num 7"
    using t7[THEN conjunct1] v(1) p by simp
  have b: "ne_expiration_days (d_newEvent (dashboard_step ''api'' (EditExpiration ''0'') logged_in)) = Num 30"
    using t0[THEN conjunct2, THEN conjunct1] v(1) by blast
  have c: "ne_expiration_days (d_newEvent (dashboard_step ''api'' (EditExpiration ''abc'') logged_in)) = Num 30"
    using ta[THEN conjunct2, THEN conjunct1] v(1) nd by blast
  have d: "\<exists>ev. http_body (fst (last (d_sent (dashboard_run ''api'' ?evs)))) = JsonBody (new_event_json ev)
        \<and> ne_expiration_days ev \<noteq> NaN \<and> ne_expiration_days ev \<noteq> Num 0"
    using t7[THEN conjunct2, THEN conjunct2, THEN conjunct1] last by blast
  have e: "d_newEvent (dashboard_step ''api'' (CreateEvent (Resolved ?res)) ?st7) = new_event_blank"
    using tc[THEN conjunct2, THEN conjunct2, THEN conjunct2] v(2) r by blast
  from a b c d e show ?thesis by blast
qed

subsection \<open>The bearer token\<close>

lemma well_authorised_append:
  "well_authorised api seen (xs @ ys) \<longleftrightarrow>
     well_authorised api seen xs \<and> well_authorised api (seen @ xs) ys"
  by (induction xs arbitrary: seen) auto

lemma from_login_mono: "from_login api log t \<Longrightarrow> from_login api (log @ later) t"
  by (auto simp: from_login_def list_ex_iff)

lemma from_login_subset:
  "from_login api log t \<Longrightarrow> set log \<subseteq> set log' \<Longrightarrow> from_login api log' t"
  by (auto simp: from_login_def list_ex_iff)

lemma login_not_protected [simp]: "\<not> protected api (login_request api u p)"
  by (simp add: protected_def login_request_def)

lemma login_is_login [simp]: "is_login api (login_request api u p)"
  by (simp add: is_login_def login_request_def)

lemma bearer_requests [simp]:
  "bearer (events_request api token) = Some (to_string token)"
  "bearer (create_event_request api token ev) = Some (to_string token)"
  "bearer (event_request api token eventId) = Some (to_string token)"
  "bearer (uploads_request api token eventId) = Some (to_string token)"
  by (simp_all add: bearer_def events_request_def create_event_request_def event_request_def
      uploads_request_def authorization_def content_type_json_def)

lemma handleLogin_cases:
  "(d_token (handleLogin api out st) = d_token st
      \<and> d_localStorage (handleLogin api out st) = d_localStorage st)
   \<or> (\<exists>t. login_reply_token out = Some (to_string t)
         \<and> d_token (handleLogin api out st) = t
         \<and> d_localStorage (handleLogin api out st) = (d_localStorage st)(''tp_token'' \<mapsto> to_string t))"
  by (simp add: handleLogin_def login_reply_token_def Let_def
      split: outcome.splits option.splits sum.splits)

lemma step_token_inv:
  assumes "token_inv api st"
  shows "token_inv api (dashboard_step api ev st)
    \<and> (\<exists>new. d_sent (dashboard_step api ev st) = d_sent st @ new
          \<and> well_authorised api (d_sent st) new
          \<and> (\<forall>e \<in> set new. protected api (fst e) \<longrightarrow>
                (\<exists>t. d_localStorage (dashboard_step api ev st) ''tp_token'' = Some t
                   \<and> bearer (fst e) = Some t)))"
proof -
  from assms have J0: "\<And>t. d_localStorage st ''tp_token'' = Some t \<Longrightarrow> from_login api (d_sent st) t"
    and J1: "truthy (d_token st) \<Longrightarrow> d_localStorage st ''tp_token'' = Some (to_string (d_token st))"
    by (auto simp: token_inv_def)
  have known: "from_login api (d_sent st) (to_string (d_token st))" if "truthy (d_token st)"
    using J0 J1 that by blast
  show ?thesis
  proof (cases ev)
    case (Login out outEvents)
    show ?thesis
    proof (cases "dashboard_view st = LoginView")
      case False
      then show ?thesis using Login assms by simp
    next
      case True
      then have falsy: "\<not> truthy (d_token st)"
        by (auto simp: dashboard_view_def split: if_splits)
      let ?st1 = "handleLogin api out st"
      let ?l = "(login_request api (d_username st) (d_password st), out)"
      have step: "dashboard_step api ev st = token_effect api outEvents (d_token st) ?st1"
        using Login True by simp
      from handleLogin_cases[of api out st]
      show ?thesis
      proof
        assume same: "d_token ?st1 = d_token st \<and> d_localStorage ?st1 = d_localStorage st"
        then have "token_effect api outEvents (d_token st) ?st1 = ?st1"
          using falsy by (simp add: token_effect_def)
        then have eq: "dashboard_step api ev st = ?st1" using step by simp
        have "token_inv api ?st1"
          using same falsy J0 by (auto simp: token_inv_def intro: from_login_mono)
        then show ?thesis unfolding eq by simp
      next
        assume "\<exists>t. login_reply_token out = Some (to_string t) \<and> d_token ?st1 = t
          \<and> d_localStorage ?st1 = (d_localStorage st)(''tp_token'' \<mapsto> to_string t)"
        then obtain t where t: "login_reply_token out = Some (to_string t)" "d_token ?st1 = t"
          "d_localStorage ?st1 = (d_localStorage st)(''tp_token'' \<mapsto> to_string t)" by blast
        have fl: "from_login api (d_sent st @ [?l]) (to_string t)"
          using t(1) by (simp add: from_login_def)
        have sub: "set (d_sent st @ [?l]) \<subseteq>
            set (d_sent (token_effect api outEvents (d_token st) ?st1))"
          using token_effect_sent[of api outEvents "d_token st" ?st1] by auto
        have old: "from_login api (d_sent st @ [?l]) u" if "d_localStorage st ''tp_token'' = Some u" for u
          using J0[OF that] by (rule from_login_mono)
        have fl': "from_login api (d_sent (token_effect api outEvents (d_token st) ?st1)) (to_string t)"
          using fl sub by (rule from_login_subset)
        have old': "from_login api (d_sent (token_effect api outEvents (d_token st) ?st1)) u"
          if "d_localStorage st ''tp_token'' = Some u" for u
          using old[OF that] sub by (rule from_login_subset)
        have inv: "token_inv api (dashboard_step api ev st)"
          unfolding step token_inv_def
          using t fl' old' by auto
        from token_effect_sent[of api outEvents "d_token st" ?st1]
        show ?thesis
        proof
          assume "d_sent (token_effect api outEvents (d_token st) ?st1) = d_sent ?st1"
          then show ?thesis using inv step by simp
        next
          assume "truthy (d_token ?st1) \<and> d_sent (token_effect api outEvents (d_token st) ?st1)
            = d_sent ?st1 @ [(events_request api (d_token ?st1), outEvents)]"
          then show ?thesis using inv step t fl
            by simp
        qed
      qed
    qed
  next
    case (CreateEvent out)
    show ?thesis
    proof (cases "dashboard_view st = EventListView")
      case False
      then show ?thesis using CreateEvent assms by simp
    next
      case True
      then have tr: "truthy (d_token st)" by (auto simp: dashboard_view_def split: if_splits)
      have "token_inv api (handleCreateEvent api out st)"
        using assms by (auto simp: token_inv_def intro: from_login_mono)
      then show ?thesis using CreateEvent True known[OF tr] J1[OF tr] by simp
    qed
  next
    case (ViewAnalytics eventId o1 o2)
    show ?thesis
    proof (cases "dashboard_view st = EventListView")
      case False
      then show ?thesis using ViewAnalytics assms by simp
    next
      case True
      then have tr: "truthy (d_token st)" by (auto simp: dashboard_view_def split: if_splits)
      from loadAnalytics_sent[of api eventId o1 o2 st]
      show ?thesis
      proof
        assume s: "d_sent (loadAnalytics api eventId o1 o2 st) =
          d_sent st @ [(event_request api (d_token st) eventId, o1)]"
        have "token_inv api (loadAnalytics api eventId o1 o2 st)"
          using assms s by (auto simp: token_inv_def intro: from_login_mono)
        then show ?thesis using ViewAnalytics True known[OF tr] J1[OF tr] s by simp
      next
        assume s: "d_sent (loadAnalytics api eventId o1 o2 st) =
          d_sent st @ [(event_request api (d_token st) eventId, o1),
                       (uploads_request api (d_token st) eventId, o2)]"
        have "token_inv api (loadAnalytics api eventId o1 o2 st)"
          using assms s by (auto simp: token_inv_def intro: from_login_mono)
        then show ?thesis using ViewAnalytics True known[OF tr] J1[OF tr] s
          by (simp add: from_login_mono)
      qed
    qed
  next
    case Logout
    then show ?thesis using assms by (auto simp: token_inv_def logout_def)
  next
    case (Reload outEvents)
    let ?m = "dashboard_mount (d_localStorage st) (d_sent st)"
    have m: "token_inv api ?m"
      using J0 by (auto simp: token_inv_def dashboard_mount_def split: option.splits)
    show ?thesis
    proof (cases "truthy (d_token ?m)")
      case False
      then show ?thesis using Reload m by (simp add: Let_def)
    next
      case True
      then obtain t where t: "d_localStorage st ''tp_token'' = Some t" "d_token ?m = JStr t"
        by (auto simp: dashboard_mount_def split: option.splits)
      have "token_inv api (fetchEvents api outEvents ?m)"
        using m by (auto simp: token_inv_def intro: from_login_mono)
      then show ?thesis using Reload True t J0[OF t(1)] by (simp add: Let_def)
    qed
  qed (use assms in \<open>auto simp: token_inv_def\<close>)
qed

lemma fresh_token_inv: "token_inv api dashboard_fresh"
  by (simp add: token_inv_def dashboard_fresh_def dashboard_mount_def)

lemma run_token_inv:
  "token_inv api (dashboard_run api evs) \<and> well_authorised api [] (d_sent (dashboard_run api evs))"
proof (induction evs rule: rev_induct)
  case Nil
  then show ?case using fresh_token_inv by (simp add: dashboard_run_def dashboard_fresh_def)
next
  case (snoc ev evs)
  then have inv: "token_inv api (dashboard_run api evs)"
    and wa: "well_authorised api [] (d_sent (dashboard_run api evs))" by simp_all
  from step_token_inv[OF inv, of ev] wa show ?case
    unfolding dashboard_run_snoc by (auto simp: well_authorised_append)
qed

lemma well_authorised_nth:
  "well_authorised api seen log \<Longrightarrow> i < length log \<Longrightarrow> protected api (fst (log ! i)) \<Longrightarrow>
     \<exists>t. bearer (fst (log ! i)) = Some t \<and> from_login api (seen @ take i log) t"
proof (induction log arbitrary: seen i)
  case Nil
  then show ?case by simp
next
  case (Cons e log)
  show ?case
  proof (cases i)
    case 0
    then show ?thesis using Cons.prems by (auto split: option.splits)
  next
    case (Suc k)
    then have "well_authorised api (seen @ [e]) log" "k < length log" "protected api (fst (log ! k))"
      using Cons.prems by simp_all
    from Cons.IH[OF this] show ?thesis using Suc by simp
  qed
qed

lemma bearer_header:
  "bearer r = Some t \<Longrightarrow> map_of (http_headers r) ''Authorization'' = Some (''Bearer '' @ t)"
proof -
  assume "bearer r = Some t"
  then obtain v where v: "map_of (http_headers r) ''Authorization'' = Some v"
    "take 7 v = ''Bearer ''" "drop 7 v = t"
    by (auto simp: bearer_def split: option.splits if_splits)
  have "v = take 7 v @ drop 7 v" by simp
  then show ?thesis using v by simp
qed

lemma from_login_take:
  "from_login api (take i log) t \<Longrightarrow>
     \<exists>j < i. j < length log \<and> is_login api (fst (log ! j)) \<and> login_reply_token (snd (log ! j)) = Some t"
proof -
  assume "from_login api (take i log) t"
  then obtain l where l: "l \<in> set (take i log)" "is_login api (fst l)"
    "login_reply_token (snd l) = Some t"
    by (auto simp: from_login_def list_ex_iff)
  then obtain j where "j < length (take i log)" "take i log ! j = l"
    by (auto simp: in_set_conv_nth)
  then show ?thesis using l by auto
qed

text \<open>
  Claim C7. In every session of the dashboard, each request to a protected events
  endpoint (\<^verbatim>\<open>GET /events\<close>, \<^verbatim>\<open>POST /events\<close>, \<^verbatim>\<open>GET /events/:id\<close>,
  \<^verbatim>\<open>GET /events/:id/uploads\<close>) carries the header \<^verbatim>\<open>Authorization\<close> with
  \<^verbatim>\<open>Bearer \<close> followed by a token that an earlier \<^verbatim>\<open>POST /login\<close> of the session
  returned, and at the moment the request is sent that token is the one stored under
  \<open>tp_token\<close> in \<^verbatim>\<open>localStorage\<close>. Each handler is taken as one step.
\<close>

theorem protected_requests_carry_login_token:
  "(\<forall>i < length (d_sent (dashboard_run api evs)).
       protected api (fst (d_sent (dashboard_run api evs) ! i)) \<longrightarrow>
       (\<exists>t. map_of (http_headers (fst (d_sent (dashboard_run api evs) ! i))) ''Authorization''
              = Some (''Bearer '' @ t)
          \<and> (\<exists>j < i. is_login api (fst (d_sent (dashboard_run api evs) ! j))
                \<and> login_reply_token (snd (d_sent (dashboard_run api evs) ! j)) = Some t)))
   \<and> (\<forall>e \<in> set (drop (length (d_sent (dashboard_run api evs)))
                    (d_sent (dashboard_run api (evs @ [ev])))).
         protected api (fst e) \<longrightarrow>
         (\<exists>t. d_localStorage (dashboard_run api (evs @ [ev])) ''tp_token'' = Some t
            \<and> map_of (http_headers (fst e)) ''Authorization'' = Some (''Bearer '' @ t)))
   \<and> protected api (events_request api token)
   \<and> protected api (create_event_request api token newEvent)
   \<and> protected api (event_request api token eventId)
   \<and> protected api (uploads_request api token eventId)"
proof (intro conjI allI impI ballI)
  let ?log = "d_sent (dashboard_run api evs)"
  fix i assume i: "i < length ?log" "protected api (fst (?log ! i))"
  have "well_authorised api [] ?log" using run_token_inv by blast
  from well_authorised_nth[OF this i] obtain t where
    t: "bearer (fst (?log ! i)) = Some t" "from_login api (take i ?log) t" by auto
  from from_login_take[OF t(2)] bearer_header[OF t(1)]
  show "\<exists>t. map_of (http_headers (fst (?log ! i))) ''Authorization'' = Some (''Bearer '' @ t)
          \<and> (\<exists>j < i. is_login api (fst (?log ! j)) \<and> login_reply_token (snd (?log ! j)) = Some t)"
    by blast
next
  fix e
  assume e: "e \<in> set (drop (length (d_sent (dashboard_run api evs)))
                    (d_sent (dashboard_run api (evs @ [ev]))))"
    and p: "protected api (fst e)"
  have "token_inv api (dashboard_run api evs)" using run_token_inv by blast
  from step_token_inv[OF this, of ev] e p
  obtain t where "d_localStorage (dashboard_run api (evs @ [ev])) ''tp_token'' = Some t"
    "bearer (fst e) = Some t"
    unfolding dashboard_run_snoc by auto
  then show "\<exists>t. d_localStorage (dashboard_run api (evs @ [ev])) ''tp_token'' = Some t
            \<and> map_of (http_headers (fst e)) ''Authorization'' = Some (''Bearer '' @ t)"
    using bearer_header by blast
qed (simp_all add: protected_def events_request_def create_event_request_def
      event_request_def uploads_request_def)

theorem protected_requests_carry_login_token_witness:
  "(\<exists>t. map_of (http_headers (fst (d_sent (dashboard_run ''api'' sample_session) ! 2)))
            ''Authorization'' = Some (''Bearer '' @ t)
        \<and> (\<exists>j < 2. is_login ''api'' (fst (d_sent (dashboard_run ''api'' sample_session) ! j))
              \<and> login_reply_token (snd (d_sent (dashboard_run ''api'' sample_session) ! j)) = Some t))
   \<and> map_of (http_headers (fst (d_sent (dashboard_run ''api'' sample_session) ! 2)))
        ''Authorization'' = Some ''Bearer abc''
   \<and> login_reply_token (snd (d_sent (dashboard_run ''api'' sample_session) ! 0)) = Some ''abc''
   \<and> (\<exists>t. d_localStorage (dashboard_run ''api'' (sample_session @ [sample_view])) ''tp_token'' = Some t
        \<and> map_of (http_headers (fst (last (d_sent (dashboard_run ''api''
              (sample_session @ [sample_view])))))) ''Authorization'' = Some (''Bearer '' @ t))
   \<and> http_url (fst (last (d_sent (dashboard_run ''api'' (sample_session @ [sample_view])))))
       = ''api/events/e1/uploads''"
proof -
  let ?log = "d_sent (dashboard_run ''api'' sample_session)"
  let ?log' = "d_sent (dashboard_run ''api'' (sample_session @ [sample_view]))"
  have i: "2 < length ?log" "protected ''api'' (fst (?log ! 2))" by code_simp+
  have l: "last ?log' \<in> set (drop (length ?log) ?log')" "protected ''api'' (fst (last ?log'))"
    by code_simp+
  have c: "map_of (http_headers (fst (?log ! 2))) ''Authorization'' = Some ''Bearer abc''"
    "login_reply_token (snd (?log ! 0)) = Some ''abc''"
    "http_url (fst (last ?log')) = ''api/events/e1/uploads''"
    by code_simp+
  note t = protected_requests_carry_login_token[of "''api''" sample_session sample_view]
  have a: "\<exists>t. map_of (http_headers (fst (?log ! 2))) ''Authorization'' = Some (''Bearer '' @ t)
        \<and> (\<exists>j < 2. is_login ''api'' (fst (?log ! j)) \<and> login_reply_token (snd (?log ! j)) = Some t)"
    using t[THEN conjunct1] i by blast
  have b: "\<exists>t. d_localStorage (dashboard_run ''api'' (sample_session @ [sample_view])) ''tp_token'' = Some t
        \<and> map_of (http_headers (fst (last ?log'))) ''Authorization'' = Some (''Bearer '' @ t)"
    using t[THEN conjunct2, THEN conjunct1] l by blast
  from a b c show ?thesis by blast
qed

section \<open>Registration in the microsite\<close>

subsection \<open>What each handler sends\<close>

lemma form_run_snoc:
  "form_run api eventId (evs @ [ev]) = form_step api eventId ev (form_run api eventId evs)"
  by (simp add: form_run_def)

lemma register_run_snoc:
  "register_run api eventId (evs @ [ev]) = register_step api eventId ev (register_run api eventId evs)"
  by (simp add: register_run_def)

lemma handleSubmit_sent:
  "rf_sent (handleSubmit api eventId out st) =
     (case rf_selfie st of
        None \<Rightarrow> rf_sent st
      | Some f \<Rightarrow> rf_sent st @ [register_request api eventId (rf_phone st) f])"
  by (simp add: handleSubmit_def split: option.splits)

lemma form_step_sent:
  "rf_sent (form_step api eventId ev st) = rf_sent st
   \<or> (\<exists>f. rf_phone st \<noteq> [] \<and> rf_selfie st = Some f
         \<and> rf_sent (form_step api eventId ev st)
             = rf_sent st @ [register_request api eventId (rf_phone st) f])"
  by (cases ev) (auto simp: handleSubmit_sent split: option.splits)

lemma fetchEvent_frame [simp]:
  "r_sent (fetchEvent api eventId out st) = r_sent st @ [event_info_request api eventId]"
  "r_step (fetchEvent api eventId out st) = r_step st"
  "r_phone (fetchEvent api eventId out st) = r_phone st"
  by (simp_all add: fetchEvent_def Let_def split: outcome.splits option.splits sum.splits)

lemma startCamera_frame [simp]:
  "r_sent (startCamera g st) = r_sent st"
  "r_step (startCamera g st) = r_step st"
  "r_phone (startCamera g st) = r_phone st"
  by (simp_all add: startCamera_def)

lemma handleCapture_sent:
  "r_sent (handleCapture api eventId blob out st) = r_sent st
   \<or> (\<exists>bytes. r_step st = ''camera'' \<and> blob = Some bytes
        \<and> r_sent (handleCapture api eventId blob out st) = r_sent st @
            [register_request api eventId (r_phone st)
               \<lparr>file_name = ''selfie.jpg'', file_type = ''image/jpeg'', file_bytes = bytes\<rparr>])"
  by (simp add: handleCapture_def Let_def split: option.splits)

lemma handleCapture_frame [simp]:
  "r_phone (handleCapture api eventId blob out st) = r_phone st"
  "r_step (handleCapture api eventId blob out st) = ''phone'' \<longleftrightarrow> r_step st = ''phone''"
  by (auto simp: handleCapture_def Let_def split: option.splits)

lemma register_step_sent:
  "r_sent (register_step api eventId ev st) = r_sent st
   \<or> r_sent (register_step api eventId ev st) = r_sent st @ [event_info_request api eventId]
   \<or> (\<exists>bytes. r_step st = ''camera''
        \<and> r_sent (register_step api eventId ev st) = r_sent st @
            [register_request api eventId (r_phone st)
               \<lparr>file_name = ''selfie.jpg'', file_type = ''image/jpeg'', file_bytes = bytes\<rparr>])"
proof (cases ev)
  case (Capture blob out)
  then show ?thesis using handleCapture_sent[of api eventId blob out st] by auto
qed (simp_all add: handlePhoneSubmit_def handleToggleCamera_def)

lemma register_step_phone:
  assumes "r_step st = ''phone'' \<or> r_phone st \<noteq> []"
  shows "r_step (register_step api eventId ev st) = ''phone''
         \<or> r_phone (register_step api eventId ev st) \<noteq> []"
  using assms
  by (cases ev) (auto simp: handlePhoneSubmit_def handleToggleCamera_def)

lemma register_run_phone:
  "r_step (register_run api eventId evs) = ''phone'' \<or> r_phone (register_run api eventId evs) \<noteq> []"
proof (induction evs rule: rev_induct)
  case Nil
  then show ?case by (simp add: register_run_def register_init_def)
next
  case (snoc ev evs)
  then show ?case unfolding register_run_snoc by (rule register_step_phone)
qed

lemma register_run_sent:
  "r \<in> set (r_sent (register_run api eventId evs)) \<Longrightarrow>
     r = event_info_request api eventId
     \<or> (\<exists>p f. p \<noteq> [] \<and> r = register_request api eventId p f)"
proof (induction evs rule: rev_induct)
  case Nil
  then show ?case by (simp add: register_run_def register_init_def)
next
  case (snoc ev evs)
  let ?st = "register_run api eventId evs"
  have ph: "r_step ?st = ''camera'' \<Longrightarrow> r_phone ?st \<noteq> []"
    using register_run_phone[of api eventId evs] by auto
  from snoc.prems have mem: "r \<in> set (r_sent (register_step api eventId ev ?st))"
    unfolding register_run_snoc .
  from register_step_sent[of api eventId ev ?st]
  consider "r_sent (register_step api eventId ev ?st) = r_sent ?st"
    | "r_sent (register_step api eventId ev ?st) = r_sent ?st @ [event_info_request api eventId]"
    | bytes where "r_step ?st = ''camera''"
        "r_sent (register_step api eventId ev ?st) = r_sent ?st @
            [register_request api eventId (r_phone ?st)
               \<lparr>file_name = ''selfie.jpg'', file_type = ''image/jpeg'', file_bytes = bytes\<rparr>]"
    by blast
  then show ?case
  proof cases
    case 1
    then show ?thesis using mem snoc.IH by simp
  next
    case 2
    then show ?thesis using mem snoc.IH by auto
  next
    case 3
    from mem 3(2) have "r \<in> set (r_sent ?st) \<or> r = register_request api eventId (r_phone ?st)
               \<lparr>file_name = ''selfie.jpg'', file_type = ''image/jpeg'', file_bytes = bytes\<rparr>"
      by auto
    then show ?thesis using snoc.IH ph[OF 3(1)] by blast
  qed
qed

lemma form_run_sent:
  "r \<in> set (rf_sent (form_run api eventId evs)) \<Longrightarrow>
     \<exists>p f. p \<noteq> [] \<and> r = register_request api eventId p f"
proof (induction evs rule: rev_induct)
  case Nil
  then show ?case by (simp add: form_run_def register_form_init_def)
next
  case (snoc ev evs)
  let ?st = "form_run api eventId evs"
  from snoc.prems have mem: "r \<in> set (rf_sent (form_step api eventId ev ?st))"
    unfolding form_run_snoc .
  from form_step_sent[of api eventId ev ?st]
  consider "rf_sent (form_step api eventId ev ?st) = rf_sent ?st"
    | f where "rf_phone ?st \<noteq> []"
        "rf_sent (form_step api eventId ev ?st) = rf_sent ?st @ [register_request api eventId (rf_phone ?st) f]"
    by blast
  then show ?case
  proof cases
    case 1
    then show ?thesis using mem snoc.IH by simp
  next
    case 2
    from mem 2(2) have "r \<in> set (rf_sent ?st) \<or> r = register_request api eventId (rf_phone ?st) f"
      by auto
    then show ?thesis using snoc.IH 2(1) by blast
  qed
qed

lemma register_request_shape [simp]:
  "registration_shape api eventId phone (register_request api eventId phone f)"
  by (simp add: registration_shape_def register_request_def form_fields_def)

lemma register_request_url [simp]:
  "http_url (register_request api eventId p f) = api @ ''/register''"
  "http_url (event_info_request api eventId) \<noteq> api @ ''/register''"
  by (simp_all add: register_request_def event_info_request_def)

lemma App_register_param:
  "App loc = RegisterPage eventId \<Longrightarrow>
     params_get (search_params loc) ''event'' = Some eventId \<and> eventId \<noteq> []"
  by (auto simp: App_def Let_def getRegisterEvent_def truthy_opt_def
      split: if_splits option.splits)

subsection \<open>Missing inputs\<close>



subsection \<open>The fields of a registration request\<close>

text \<open>
  Claim C5. When the page's \<open>event\<close> parameter makes the microsite render the
  registration, every registration request it sends, from the single form or from the
  flow with the camera, is a POST to \<^verbatim>\<open>{API_BASE}/register\<close> whose multipart form holds
  exactly the fields \<open>event_id\<close>, \<open>phone\<close> and \<open>selfie\<close>; \<open>event_id\<close> is the value of the
  \<open>event\<close> parameter and \<open>phone\<close> is the form input at the moment of sending. The only other
  request of the flow with the camera is the one that loads the event's details.
\<close>

theorem registration_request_fields:
  assumes "App loc = RegisterPage eventId"
  shows "params_get (search_params loc) ''event'' = Some eventId
   \<and> (\<forall>r \<in> set (rf_sent (form_run api eventId fevs)). \<exists>phone. registration_shape api eventId phone r)
   \<and> (\<forall>r \<in> set (r_sent (register_run api eventId evs)).
         r = event_info_request api eventId \<or> (\<exists>phone. registration_shape api eventId phone r))
   \<and> (rf_sent (form_step api eventId fev st) = rf_sent st
       \<or> (\<exists>r. rf_sent (form_step api eventId fev st) = rf_sent st @ [r]
             \<and> registration_shape api eventId (rf_phone st) r))
   \<and> (r_sent (register_step api eventId ev rs) = r_sent rs
       \<or> r_sent (register_step api eventId ev rs) = r_sent rs @ [event_info_request api eventId]
       \<or> (\<exists>r. r_sent (register_step api eventId ev rs) = r_sent rs @ [r]
             \<and> registration_shape api eventId (r_phone rs) r))"
proof (intro conjI ballI)
  show "params_get (search_params loc) ''event'' = Some eventId"
    using App_register_param[OF assms] by simp
  show "\<exists>phone. registration_shape api eventId phone r"
    if "r \<in> set (rf_sent (form_run api eventId fevs))" for r
    using form_run_sent[OF that] register_request_shape by blast
  show "r = event_info_request api eventId \<or> (\<exists>phone. registration_shape api eventId phone r)"
    if "r \<in> set (r_sent (register_run api eventId evs))" for r
    using register_run_sent[OF that] register_request_shape by blast
  show "rf_sent (form_step api eventId fev st) = rf_sent st
       \<or> (\<exists>r. rf_sent (form_step api eventId fev st) = rf_sent st @ [r]
             \<and> registration_shape api eventId (rf_phone st) r)"
    using form_step_sent[of api eventId fev st] register_request_shape by blast
  show "r_sent (register_step api eventId ev rs) = r_sent rs
       \<or> r_sent (register_step api eventId ev rs) = r_sent rs @ [event_info_request api eventId]
       \<or> (\<exists>r. r_sent (register_step api eventId ev rs) = r_sent rs @ [r]
             \<and> registration_shape api eventId (r_phone rs) r)"
    using register_step_sent[of api eventId ev rs] register_request_shape by blast
qed

theorem registration_request_fields_witness:
  "params_get (search_params \<lparr>pathname = ''/register'', search_params = [(''event'', ''e1'')]\<rparr>)
      ''event'' = Some ''e1''
   \<and> (\<exists>phone. registration_shape ''api'' ''e1'' phone
         (last (rf_sent (form_run ''api'' ''e1''
            [TypePhone ''11999'', ChooseSelfie (Some sample_selfie), Submit Rejected]))))
   \<and> form_fields (last (rf_sent (form_run ''api'' ''e1''
            [TypePhone ''11999'', ChooseSelfie (Some sample_selfie), Submit Rejected])))
       = [(''event_id'', FText ''e1''), (''phone'', FText ''11999''), (''selfie'', FFile sample_selfie)]
   \<and> (\<exists>phone. registration_shape ''api'' ''e1'' phone
         (last (r_sent (register_run ''api'' ''e1''
            [EnterPhone ''11999'', PhoneSubmit True, Capture (Some ''img'') Rejected]))))"
proof -
  let ?loc = "\<lparr>pathname = ''/register'', search_params = [(''event'', ''e1'')]\<rparr>"
  let ?fevs = "[TypePhone ''11999'', ChooseSelfie (Some sample_selfie), Submit Rejected]"
  let ?evs = "[EnterPhone ''11999'', PhoneSubmit True, Capture (Some ''img'') Rejected]"
  have page: "App ?loc = RegisterPage ''e1''" by code_simp
  have f: "last (rf_sent (form_run ''api'' ''e1'' ?fevs)) \<in> set (rf_sent (form_run ''api'' ''e1'' ?fevs))"
    by code_simp
  have r: "last (r_sent (register_run ''api'' ''e1'' ?evs)) \<in> set (r_sent (register_run ''api'' ''e1'' ?evs))"
    "last (r_sent (register_run ''api'' ''e1'' ?evs)) \<noteq> event_info_request ''api'' ''e1''"
    by code_simp+
  have c: "form_fields (last (rf_sent (form_run ''api'' ''e1'' ?fevs)))
       = [(''event_id'', FText ''e1''), (''phone'', FText ''11999''), (''selfie'', FFile sample_selfie)]"
    by code_simp
  note t = registration_request_fields[OF page, of "''api''" ?fevs ?evs "Submit Rejected"
      register_form_init "Mounted Rejected" register_init]
  have 1: "params_get (search_params ?loc) ''event'' = Some ''e1''"
    using t[THEN conjunct1] .
  have 2: "\<exists>phone. registration_shape ''api'' ''e1'' phone (last (rf_sent (form_run ''api'' ''e1'' ?fevs)))"
    using t[THEN conjunct2, THEN conjunct1] f by blast
  have 3: "\<exists>phone. registration_shape ''api'' ''e1'' phone (last (r_sent (register_run ''api'' ''e1'' ?evs)))"
    using t[THEN conjunct2, THEN conjunct2, THEN conjunct1] r by blast
  from 1 2 3 c show ?thesis by blast
qed

end
